theory Spec2Isabelle
  imports Complex_Main
begin

section \<open>Values exchanged with the model: JSON\<close>

text \<open>
  The records the pipeline stores are whatever \<^verbatim>\<open>json.loads\<close> returned for the model's
  answer, so they are arbitrary JSON values. Number and string literals are kept as the
  characters of their source text (the conversion to Python floats and the decoding of
  escape sequences are not modelled); an object is the list of its key/value pairs in
  insertion order, each key once, as a Python dict holds them.
\<close>

datatype json =
    JNull
  | JBool bool
  | JNumber string
  | JString string
  | JArray "json list"
  | JObject "(string \<times> json) list"

section \<open>Python string primitives used by the source\<close>

text \<open>\<^verbatim>\<open>needle in haystack\<close> on strings: some position of the haystack starts with the needle.\<close>

fun py_contains :: "string \<Rightarrow> string \<Rightarrow> bool" where
  "py_contains needle [] = (needle = [])"
| "py_contains needle (c # cs) =
     (take (length needle) (c # cs) = needle \<or> py_contains needle cs)"

text \<open>\<^verbatim>\<open>sep.join(parts)\<close>.\<close>

fun py_join :: "string \<Rightarrow> string list \<Rightarrow> string" where
  "py_join sep [] = []"
| "py_join sep [p] = p"
| "py_join sep (p # q # ps) = p @ sep @ py_join sep (q # ps)"

definition hex_digit :: "nat \<Rightarrow> char" where
  "hex_digit n = (''0123456789abcdef'' ! (n mod 16))"

text \<open>
  \<^verbatim>\<open>repr\<close> of a string: single quotes unless the text holds a single quote and no double
  quote; the chosen quote and the backslash are escaped, so are tab, newline, carriage
  return, and the other control characters as \<^verbatim>\<open>\xhh\<close>. Characters are bytes here; bytes
  from 128 on (the UTF-8 encoding of non-ASCII text) are passed through.
\<close>

definition py_repr_char :: "char \<Rightarrow> char \<Rightarrow> string" where
  "py_repr_char q c =
     (if c = q \<or> c = CHR 0x5C then [CHR 0x5C, c]
      else if c = CHR 0x09 then [CHR 0x5C, CHR ''t'']
      else if c = CHR 0x0A then [CHR 0x5C, CHR ''n'']
      else if c = CHR 0x0D then [CHR 0x5C, CHR ''r'']
      else if (of_char c :: nat) < 32 \<or> (of_char c :: nat) = 127
        then [CHR 0x5C, CHR ''x'', hex_digit (of_char c div 16), hex_digit (of_char c)]
      else [c])"

definition py_repr_str :: "string \<Rightarrow> string" where
  "py_repr_str s =
     (let q = (if CHR 0x27 \<in> set s \<and> CHR 0x22 \<notin> set s then CHR 0x22 else CHR 0x27)
      in q # concat (map (py_repr_char q) s) @ [q])"

text \<open>
  \<^verbatim>\<open>repr\<close> of a decoded JSON value. A number prints as its literal here (Python prints the
  float or int it was converted to).
\<close>

fun py_repr :: "json \<Rightarrow> string" where
  "py_repr JNull = ''None''"
| "py_repr (JBool b) = (if b then ''True'' else ''False'')"
| "py_repr (JNumber n) = n"
| "py_repr (JString s) = py_repr_str s"
| "py_repr (JArray xs) = ''['' @ py_join '', '' (map py_repr xs) @ '']''"
| "py_repr (JObject kvs) =
     ''{'' @ py_join '', '' (map (\<lambda>kv. py_repr_str (fst kv) @ '': '' @ py_repr (snd kv)) kvs) @ ''}''"

text \<open>\<^verbatim>\<open>str(items)\<close> for a list of values.\<close>

definition py_str_list :: "json list \<Rightarrow> string" where
  "py_str_list items = ''['' @ py_join '', '' (map py_repr items) @ '']''"

section \<open>Durable store: \<^verbatim>\<open>JSONStorage\<close>\<close>

text \<open>The four keys of \<^verbatim>\<open>self.files\<close> and \<^verbatim>\<open>self.data\<close>.\<close>

datatype data_type = green_classifications | tech_classifications | entity_locations | progress

fun type_name :: "data_type \<Rightarrow> string" where
  "type_name green_classifications = ''green_classifications''"
| "type_name tech_classifications = ''tech_classifications''"
| "type_name entity_locations = ''entity_locations''"
| "type_name progress = ''progress''"

text \<open>The progress dict: the two key lists, the session and the time of the last mark.\<close>

record ledger =
  processed_patents :: "json list"
  processed_entities :: "json list"
  ledger_session_id :: string
  last_update :: "string option"

text \<open>
  What a JSON file of a session decodes to: a list (the three result kinds) or the progress
  dict. A file is either the complete text \<^verbatim>\<open>json.dump\<close> wrote for a document, which
  \<^verbatim>\<open>json.load\<close> reads back as that document, or text that does not decode (an empty or
  partly written file among them). The disk maps a path to the file there, if any.
\<close>

datatype document = Results "json list" | Ledger ledger

datatype stored_file = Doc document | Malformed

type_synonym disk = "string \<Rightarrow> stored_file option"

text \<open>\<^verbatim>\<open>os.path.join\<close> of a directory and a file name (POSIX).\<close>

definition path_join :: "string \<Rightarrow> string \<Rightarrow> string" where
  "path_join d f =
     (if f \<noteq> [] \<and> hd f = CHR ''/'' then f
      else if d = [] \<or> last d = CHR ''/'' then d @ f
      else d @ ''/'' @ f)"

text \<open>
  The store: its directory and session, the in-memory collections of \<^verbatim>\<open>self.data\<close>, and
  the disk it reads and writes, passed along with it.
\<close>

record JSONStorage =
  output_dir :: string
  session_id :: string
  green_data :: "json list"
  tech_data :: "json list"
  location_data :: "json list"
  progress_data :: ledger
  disk :: disk

definition files :: "JSONStorage \<Rightarrow> data_type \<Rightarrow> string" where
  "files st k = path_join (output_dir st) (session_id st @ ''_'' @ type_name k @ ''.json'')"

text \<open>\<^verbatim>\<open>self.data[data_type]\<close>.\<close>

fun data :: "JSONStorage \<Rightarrow> data_type \<Rightarrow> document" where
  "data st green_classifications = Results (green_data st)"
| "data st tech_classifications = Results (tech_data st)"
| "data st entity_locations = Results (location_data st)"
| "data st progress = Ledger (progress_data st)"

text \<open>\<^verbatim>\<open>self.data[data_type].extend(items)\<close> for a result kind.\<close>

fun extend_data :: "data_type \<Rightarrow> json list \<Rightarrow> JSONStorage \<Rightarrow> JSONStorage" where
  "extend_data green_classifications items st = st\<lparr>green_data := green_data st @ items\<rparr>"
| "extend_data tech_classifications items st = st\<lparr>tech_data := tech_data st @ items\<rparr>"
| "extend_data entity_locations items st = st\<lparr>location_data := location_data st @ items\<rparr>"
| "extend_data progress items st = st"

text \<open>
  \<^verbatim>\<open>_save_json\<close>. The operating system may refuse a step; the source catches the exception,
  logs it and returns. The fault says which step, if any, is refused during one call.
\<close>

datatype fault = NoFault | WriteFails | RemoveFails | RenameFails

text \<open>
  The disk states one call of \<^verbatim>\<open>_save_json\<close> goes through, in order: before the call, after
  the temporary file is opened for writing (created or truncated, its text incomplete
  until the dump ends), after the dump, after \<^verbatim>\<open>os.remove(filepath)\<close> (done only when the
  file exists), after \<^verbatim>\<open>os.rename(temp_filepath, filepath)\<close>. A process killed during the
  call leaves the disk in one of these states; a refused step ends the list there.
\<close>

definition save_json_states :: "fault \<Rightarrow> string \<Rightarrow> document \<Rightarrow> disk \<Rightarrow> disk list" where
  "save_json_states flt filepath doc d0 =
     (let temp_filepath = filepath @ ''.tmp'';
          d1 = d0(temp_filepath \<mapsto> Malformed);
          d2 = d1(temp_filepath \<mapsto> Doc doc);
          d3 = (if d2 filepath \<noteq> None then d2(filepath := None) else d2);
          d4 = (d3(filepath := d3 temp_filepath))(temp_filepath := None)
      in if flt = WriteFails then [d0, d1]
         else if flt = RemoveFails \<and> d2 filepath \<noteq> None then [d0, d1, d2]
         else if flt = RenameFails then [d0, d1, d2, d3]
         else [d0, d1, d2, d3, d4])"

definition save_json :: "fault \<Rightarrow> data_type \<Rightarrow> JSONStorage \<Rightarrow> JSONStorage" where
  "save_json flt k st =
     st\<lparr>disk := last (save_json_states flt (files st k) (data st k) (disk st))\<rparr>"

text \<open>
  \<^verbatim>\<open>append_data\<close>. For the progress kind the source looks for the words \<^verbatim>\<open>patents\<close> and
  \<^verbatim>\<open>entities\<close> in \<^verbatim>\<open>str(items)\<close> to choose the list it extends, and extends none when
  neither occurs. \<open>append_in_memory\<close> is the part of the body before the save.
\<close>

definition append_in_memory :: "data_type \<Rightarrow> json list \<Rightarrow> JSONStorage \<Rightarrow> JSONStorage" where
  "append_in_memory k items st =
     (if k = progress then
        (if py_contains ''patents'' (py_str_list items) then
           st\<lparr>progress_data := (progress_data st)
                 \<lparr>processed_patents := processed_patents (progress_data st) @ items\<rparr>\<rparr>
         else if py_contains ''entities'' (py_str_list items) then
           st\<lparr>progress_data := (progress_data st)
                 \<lparr>processed_entities := processed_entities (progress_data st) @ items\<rparr>\<rparr>
         else st)
      else extend_data k items st)"

definition append_data :: "fault \<Rightarrow> data_type \<Rightarrow> json list \<Rightarrow> JSONStorage \<Rightarrow> JSONStorage" where
  "append_data flt k items st = save_json flt k (append_in_memory k items st)"

text \<open>The disk states a kill during \<^verbatim>\<open>append_data\<close> can leave: those of its save.\<close>

definition append_data_states :: "fault \<Rightarrow> data_type \<Rightarrow> json list \<Rightarrow> JSONStorage \<Rightarrow> disk list" where
  "append_data_states flt k items st =
     save_json_states flt (files st k) (data (append_in_memory k items st) k) (disk st)"

text \<open>
  \<^verbatim>\<open>mark_processed_patents\<close> and \<^verbatim>\<open>mark_processed_entities\<close>; \<open>now\<close> is the text of
  \<^verbatim>\<open>datetime.now().isoformat()\<close>.
\<close>

definition mark_processed_patents :: "fault \<Rightarrow> string \<Rightarrow> string list \<Rightarrow> JSONStorage \<Rightarrow> JSONStorage" where
  "mark_processed_patents flt now patent_ids st =
     save_json flt progress
       (st\<lparr>progress_data := (progress_data st)
             \<lparr>processed_patents := processed_patents (progress_data st) @ map JString patent_ids,
              last_update := Some now\<rparr>\<rparr>)"

definition mark_processed_entities :: "fault \<Rightarrow> string \<Rightarrow> string list \<Rightarrow> JSONStorage \<Rightarrow> JSONStorage" where
  "mark_processed_entities flt now entity_names st =
     save_json flt progress
       (st\<lparr>progress_data := (progress_data st)
             \<lparr>processed_entities := processed_entities (progress_data st) @ map JString entity_names,
              last_update := Some now\<rparr>\<rparr>)"

definition is_patent_processed :: "JSONStorage \<Rightarrow> string \<Rightarrow> bool" where
  "is_patent_processed st patent_id \<longleftrightarrow> JString patent_id \<in> set (processed_patents (progress_data st))"

definition is_entity_processed :: "JSONStorage \<Rightarrow> string \<Rightarrow> bool" where
  "is_entity_processed st entity_name \<longleftrightarrow> JString entity_name \<in> set (processed_entities (progress_data st))"

section \<open>Decoding the model's answer\<close>

text \<open>
  \<^verbatim>\<open>json.loads\<close> of the standard library, as far as the decoder's grammar goes: the value
  may stand between blanks, an array or object nests values, a string literal is checked
  for its escapes and control characters, a number follows the decoder's pattern, and the
  constants \<^verbatim>\<open>NaN\<close>, \<^verbatim>\<open>Infinity\<close> and \<^verbatim>\<open>-Infinity\<close> are accepted. \<open>None\<close> stands for
  \<^verbatim>\<open>JSONDecodeError\<close>. Python's recursion limit and its limit on the digits of an integer
  are not modelled.
\<close>

definition is_ws :: "char \<Rightarrow> bool" where
  "is_ws c \<longleftrightarrow> c = CHR '' '' \<or> c = CHR 0x09 \<or> c = CHR 0x0A \<or> c = CHR 0x0D"

definition skip_ws :: "string \<Rightarrow> string" where
  "skip_ws s = dropWhile is_ws s"

definition is_digit :: "char \<Rightarrow> bool" where
  "is_digit c \<longleftrightarrow> c \<in> set ''0123456789''"

definition is_hex :: "char \<Rightarrow> bool" where
  "is_hex c \<longleftrightarrow> c \<in> set ''0123456789abcdefABCDEF''"

text \<open>
  The text of a string literal after its opening quote, up to the closing quote: the
  literal's characters (escapes left as written) and the rest of the input.
\<close>

fun scanstring :: "string \<Rightarrow> (string \<times> string) option" where
  "scanstring [] = None"
| "scanstring (c # cs) =
     (if c = CHR 0x22 then Some ([], cs)
      else if c = CHR 0x5C then
        (case cs of
           [] \<Rightarrow> None
         | e # es \<Rightarrow>
             if e \<in> set [CHR 0x22, CHR 0x5C, CHR ''/'', CHR ''b'', CHR ''f'', CHR ''n'', CHR ''r'', CHR ''t''] then
               map_option (\<lambda>lr. (c # e # fst lr, snd lr)) (scanstring es)
             else if e = CHR ''u'' \<and> 4 \<le> length es \<and> list_all is_hex (take 4 es) then
               map_option (\<lambda>lr. (c # e # take 4 es @ fst lr, snd lr)) (scanstring (drop 4 es))
             else None)
      else if (of_char c :: nat) < 32 then None
      else map_option (\<lambda>lr. (c # fst lr, snd lr)) (scanstring cs))"

text \<open>
  The decoder's number pattern \<^verbatim>\<open>(-?(?:0|[1-9][0-9]*))(\.[0-9]+)?([eE][-+]?[0-9]+)?\<close>, matched
  at the start of the input: the matched literal and the rest.
\<close>

definition scan_int_part :: "string \<Rightarrow> (string \<times> string) option" where
  "scan_int_part s =
     (case s of
        [] \<Rightarrow> None
      | c # cs \<Rightarrow>
          if c = CHR ''0'' then Some ([c], cs)
          else if is_digit c then Some (c # takeWhile is_digit cs, dropWhile is_digit cs)
          else None)"

definition scan_frac_part :: "string \<Rightarrow> string \<times> string" where
  "scan_frac_part s =
     (case s of
        c # cs \<Rightarrow>
          if c = CHR ''.'' \<and> takeWhile is_digit cs \<noteq> []
          then (c # takeWhile is_digit cs, dropWhile is_digit cs) else ([], s)
      | [] \<Rightarrow> ([], s))"

definition scan_exp_part :: "string \<Rightarrow> string \<times> string" where
  "scan_exp_part s =
     (case s of
        c # cs \<Rightarrow>
          if c = CHR ''e'' \<or> c = CHR ''E'' then
            (let sign = (case cs of d # ds \<Rightarrow> if d = CHR ''-'' \<or> d = CHR ''+'' then [d] else [] | [] \<Rightarrow> []);
                 ds = drop (length sign) cs
             in if takeWhile is_digit ds \<noteq> []
                then (c # sign @ takeWhile is_digit ds, dropWhile is_digit ds) else ([], s))
          else ([], s)
      | [] \<Rightarrow> ([], s))"

definition scan_number :: "string \<Rightarrow> (string \<times> string) option" where
  "scan_number s =
     (let sign = (case s of c # cs \<Rightarrow> if c = CHR ''-'' then [c] else [] | [] \<Rightarrow> [])
      in case scan_int_part (drop (length sign) s) of
           None \<Rightarrow> None
         | Some (ip, r1) \<Rightarrow>
             (let (fp, r2) = scan_frac_part r1; (ep, r3) = scan_exp_part r2
              in Some (sign @ ip @ fp @ ep, r3)))"

text \<open>Storing a key in a dict: a key already there keeps its place and takes the new value.\<close>

definition dict_set :: "(string \<times> json) list \<Rightarrow> string \<Rightarrow> json \<Rightarrow> (string \<times> json) list" where
  "dict_set kvs k v =
     (if k \<in> fst ` set kvs then map (\<lambda>kv. if fst kv = k then (k, v) else kv) kvs
      else kvs @ [(k, v)])"

text \<open>
  The scanner. The first argument bounds the nesting of calls; \<open>json_loads\<close> starts it at
  twice the length of the input plus two, which is always enough (lemma
  \<open>json_loads_fuel\<close> below).
\<close>

fun scan_once :: "nat \<Rightarrow> string \<Rightarrow> (json \<times> string) option"
  and parse_array :: "nat \<Rightarrow> string \<Rightarrow> json list \<Rightarrow> (json \<times> string) option"
  and parse_object :: "nat \<Rightarrow> string \<Rightarrow> (string \<times> json) list \<Rightarrow> (json \<times> string) option"
where
  "scan_once 0 s = None"
| "scan_once (Suc n) [] = None"
| "scan_once (Suc n) (c # cs) =
     (if c = CHR 0x22 then map_option (\<lambda>lr. (JString (fst lr), snd lr)) (scanstring cs)
      else if c = CHR ''{'' then
        (case skip_ws cs of
           [] \<Rightarrow> None
         | d # r \<Rightarrow>
             if d = CHR ''}'' then Some (JObject [], r)
             else if d = CHR 0x22 then parse_object n (d # r) []
             else None)
      else if c = CHR ''['' then
        (case skip_ws cs of
           [] \<Rightarrow> None
         | d # r \<Rightarrow> if d = CHR '']'' then Some (JArray [], r) else parse_array n (d # r) [])
      else if take 4 (c # cs) = ''null'' then Some (JNull, drop 4 (c # cs))
      else if take 4 (c # cs) = ''true'' then Some (JBool True, drop 4 (c # cs))
      else if take 5 (c # cs) = ''false'' then Some (JBool False, drop 5 (c # cs))
      else
        (case scan_number (c # cs) of
           Some (lit, r) \<Rightarrow> Some (JNumber lit, r)
         | None \<Rightarrow>
             if take 3 (c # cs) = ''NaN'' then Some (JNumber ''NaN'', drop 3 (c # cs))
             else if take 8 (c # cs) = ''Infinity'' then Some (JNumber ''Infinity'', drop 8 (c # cs))
             else if take 9 (c # cs) = ''-Infinity'' then Some (JNumber ''-Infinity'', drop 9 (c # cs))
             else None))"
| "parse_array 0 s acc = None"
| "parse_array (Suc n) s acc =
     (case scan_once n s of
        None \<Rightarrow> None
      | Some (v, r) \<Rightarrow>
          (case skip_ws r of
             [] \<Rightarrow> None
           | d # r' \<Rightarrow>
               if d = CHR '']'' then Some (JArray (acc @ [v]), r')
               else if d = CHR '','' then parse_array n (skip_ws r') (acc @ [v])
               else None))"
| "parse_object 0 s acc = None"
| "parse_object (Suc n) s acc =
     (case s of
        [] \<Rightarrow> None
      | q # s1 \<Rightarrow>
          if q \<noteq> CHR 0x22 then None
          else
            (case scanstring s1 of
               None \<Rightarrow> None
             | Some (key, r1) \<Rightarrow>
                 (case skip_ws r1 of
                    [] \<Rightarrow> None
                  | colon # r2 \<Rightarrow>
                      if colon \<noteq> CHR '':'' then None
                      else
                        (case scan_once n (skip_ws r2) of
                           None \<Rightarrow> None
                         | Some (v, r3) \<Rightarrow>
                             (case skip_ws r3 of
                                [] \<Rightarrow> None
                              | d # r4 \<Rightarrow>
                                  if d = CHR ''}'' then Some (JObject (dict_set acc key v), r4)
                                  else if d = CHR '','' then parse_object n (skip_ws r4) (dict_set acc key v)
                                  else None)))))"

definition json_loads :: "string \<Rightarrow> json option" where
  "json_loads s =
     (case scan_once (2 * length s + 2) (skip_ws s) of
        None \<Rightarrow> None
      | Some (v, r) \<Rightarrow> if skip_ws r = [] then Some v else None)"


text \<open>\<^verbatim>\<open>s.find(c)\<close> and \<^verbatim>\<open>s.rfind(c)\<close>: the first and the last index of \<open>c\<close>, or \<open>-1\<close>.\<close>

primrec find_from :: "char \<Rightarrow> string \<Rightarrow> nat \<Rightarrow> int" where
  "find_from c [] i = - 1"
| "find_from c (x # xs) i = (if x = c then int i else find_from c xs (Suc i))"

definition py_find :: "string \<Rightarrow> char \<Rightarrow> int" where
  "py_find s c = find_from c s 0"

primrec rfind_from :: "char \<Rightarrow> string \<Rightarrow> nat \<Rightarrow> int \<Rightarrow> int" where
  "rfind_from c [] i best = best"
| "rfind_from c (x # xs) i best = rfind_from c xs (Suc i) (if x = c then int i else best)"

definition py_rfind :: "string \<Rightarrow> char \<Rightarrow> int" where
  "py_rfind s c = rfind_from c s 0 (- 1)"

text \<open>\<^verbatim>\<open>s[i:j]\<close>: a negative index counts from the end, and both are clipped to the string.\<close>

definition py_index :: "nat \<Rightarrow> int \<Rightarrow> nat" where
  "py_index n i = (if i < 0 then nat (max 0 (i + int n)) else min n (nat i))"

definition py_slice :: "'a list \<Rightarrow> int \<Rightarrow> int \<Rightarrow> 'a list" where
  "py_slice s i j = take (py_index (length s) j - py_index (length s) i) (drop (py_index (length s) i) s)"

text \<open>
  The decoding step of \<^verbatim>\<open>process_batch_async\<close>: the text from the first \<^verbatim>\<open>[\<close> to the last
  \<^verbatim>\<open>]\<close> is decoded; \<open>None\<close> is the source's \<^verbatim>\<open>None\<close>, returned on a decode error and also
  when the two brackets are not found in that order.
\<close>

definition parse_response :: "string \<Rightarrow> json list option" where
  "parse_response response =
     (let json_start = py_find response CHR ''['';
          json_end = py_rfind response CHR '']'' + 1
      in if json_start \<ge> 0 \<and> json_end > json_start then
           (case json_loads (py_slice response json_start json_end) of
              None \<Rightarrow> None
            | Some (JArray results) \<Rightarrow> Some results
            | Some _ \<Rightarrow> Some [])
         else None)"


section \<open>The generator: configuration, state and environment\<close>

text \<open>The entries of \<^verbatim>\<open>LLM_ENHANCE_CONFIG\<close> the generator reads.\<close>

record config =
  batch_size :: int
  enable_tech_classification :: bool
  enable_green_classification :: bool
  enable_location_extraction :: bool
  max_concurrent_requests :: int
  max_retries :: int
  retry_delay :: real

text \<open>The counters of \<^verbatim>\<open>self.stats\<close>.\<close>

record stats =
  total_requests :: int
  successful_requests :: int
  failed_requests :: int
  retries :: int
  total_time :: real

text \<open>
  A work item of either kind, with the fields the orchestration reads (the text fields
  of a patent only enter the prompt).
\<close>

record patent =
  patentId :: string
  applicants :: "string list"
  currentOwners :: "string list"

record entity =
  normalizedName :: string
  name :: string
  entity_type :: string

text \<open>
  The state of \<^verbatim>\<open>AsyncLLMGenerator\<close>. \<open>semaphore\<close> is the number of free slots of the
  \<^verbatim>\<open>asyncio.Semaphore\<close>, \<open>None\<close> until \<^verbatim>\<open>generate_all_async\<close> creates it. \<open>slept\<close> lists the
  durations passed to \<^verbatim>\<open>asyncio.sleep\<close> in order, and \<open>clock\<close> counts the readings of
  \<^verbatim>\<open>datetime.now()\<close>, whose texts the environment supplies.
\<close>

record AsyncLLMGenerator =
  storage :: JSONStorage
  semaphore :: "int option"
  should_stop :: bool
  stats :: stats
  all_patents :: "patent list"
  all_entities :: "entity list"
  slept :: "real list"
  clock :: nat

datatype py_error = ValueError | TypeError

text \<open>
  How an awaited call ends: it returns a value, it raises, or it stays suspended on the
  semaphore for ever because every slot is held by a caller that waits for this very
  call.
\<close>

datatype 'a outcome = Returned 'a | Blocked | Raised py_error

text \<open>
  What the endpoint does with one attempt. A response has a status, the seconds it took
  and a body: the body of a 200 response either decodes and holds the completion text,
  or decodes but lacks \<^verbatim>\<open>choices[0].message.content\<close>, or does not decode at all. Otherwise
  the request times out or raises another exception.
\<close>

datatype body = Content string | NoContent | Undecodable

datatype attempt = Answered int real body | TimedOut | Failed

text \<open>\<^verbatim>\<open>signal_handler\<close>, the only assignment to the flag after \<^verbatim>\<open>__init__\<close>.\<close>

definition signal_handler :: "AsyncLLMGenerator \<Rightarrow> AsyncLLMGenerator" where
  "signal_handler g = g\<lparr>should_stop := True\<rparr>"

section \<open>Work catalog\<close>

text \<open>
  \<^verbatim>\<open>_extract_entities_from_patents\<close>. The name normaliser works on Unicode text with
  regular expressions; the extraction only asks whether it returns a non-empty name and
  which, so it is a parameter here (\<open>None\<close> for Python's \<^verbatim>\<open>None\<close>). The dict is the list of
  its entries in insertion order.
\<close>

definition entity_kind :: "string \<Rightarrow> string" where
  "entity_kind s =
     (if py_contains [CHR 0xE5, CHR 0x85, CHR 0xAC, CHR 0xE5, CHR 0x8F, CHR 0xB8] s
        \<or> py_contains ''Corp'' s \<or> py_contains ''Ltd'' s \<or> py_contains ''Inc'' s
      then [CHR 0xE4, CHR 0xBC, CHR 0x81, CHR 0xE4, CHR 0xB8, CHR 0x9A]
      else [CHR 0xE4, CHR 0xB8, CHR 0xAA, CHR 0xE4, CHR 0xBA, CHR 0xBA, CHR 0x2F,
            CHR 0xE5, CHR 0x85, CHR 0xB6, CHR 0xE4, CHR 0xBB, CHR 0x96])"

definition add_entity ::
  "(string \<Rightarrow> string option) \<Rightarrow> string \<Rightarrow> (string \<times> entity) list \<Rightarrow> (string \<times> entity) list" where
  "add_entity normalize_name s entities_dict =
     (case normalize_name s of
        None \<Rightarrow> entities_dict
      | Some normalized \<Rightarrow>
          if normalized \<noteq> [] \<and> normalized \<notin> fst ` set entities_dict then
            entities_dict @
              [(normalized, \<lparr>normalizedName = normalized, name = s, entity_type = entity_kind s\<rparr>)]
          else entities_dict)"

definition extract_entities_from_patents ::
  "(string \<Rightarrow> string option) \<Rightarrow> patent list \<Rightarrow> entity list" where
  "extract_entities_from_patents normalize_name patents =
     map snd
       (fold (\<lambda>p d. fold (add_entity normalize_name) (currentOwners p)
                       (fold (add_entity normalize_name) (applicants p) d))
          patents [])"


text \<open>\<^verbatim>\<open>get_unprocessed_patents\<close> and \<^verbatim>\<open>get_unprocessed_entities\<close>: the loop, then the call.\<close>

fun unprocessed_patents_loop ::
  "JSONStorage \<Rightarrow> int \<Rightarrow> patent list \<Rightarrow> patent list \<Rightarrow> patent list" where
  "unprocessed_patents_loop st limit unprocessed [] = unprocessed"
| "unprocessed_patents_loop st limit unprocessed (p # ps) =
     (if \<not> is_patent_processed st (patentId p) then
        (if int (length (unprocessed @ [p])) \<ge> limit then unprocessed @ [p]
         else unprocessed_patents_loop st limit (unprocessed @ [p]) ps)
      else unprocessed_patents_loop st limit unprocessed ps)"

definition get_unprocessed_patents :: "AsyncLLMGenerator \<Rightarrow> int \<Rightarrow> patent list" where
  "get_unprocessed_patents g limit = unprocessed_patents_loop (storage g) limit [] (all_patents g)"

fun unprocessed_entities_loop ::
  "JSONStorage \<Rightarrow> int \<Rightarrow> entity list \<Rightarrow> entity list \<Rightarrow> entity list" where
  "unprocessed_entities_loop st limit unprocessed [] = unprocessed"
| "unprocessed_entities_loop st limit unprocessed (e # es) =
     (if \<not> is_entity_processed st (normalizedName e) then
        (if int (length (unprocessed @ [e])) \<ge> limit then unprocessed @ [e]
         else unprocessed_entities_loop st limit (unprocessed @ [e]) es)
      else unprocessed_entities_loop st limit unprocessed es)"

definition get_unprocessed_entities :: "AsyncLLMGenerator \<Rightarrow> int \<Rightarrow> entity list" where
  "get_unprocessed_entities g limit = unprocessed_entities_loop (storage g) limit [] (all_entities g)"

section \<open>Rate-limited client: \<^verbatim>\<open>call_llm_async\<close>\<close>

definition py_isspace :: "char \<Rightarrow> bool" where
  "py_isspace c \<longleftrightarrow> (of_char c :: nat) \<in> {9, 10, 11, 12, 13, 28, 29, 30, 31, 32}"

text \<open>\<^verbatim>\<open>s.strip()\<close> (the blanks of ASCII; text is bytes here).\<close>

definition py_strip :: "string \<Rightarrow> string" where
  "py_strip s = rev (dropWhile py_isspace (rev (dropWhile py_isspace s)))"

definition count_total :: "AsyncLLMGenerator \<Rightarrow> AsyncLLMGenerator" where
  "count_total g = g\<lparr>stats := (stats g)\<lparr>total_requests := total_requests (stats g) + 1\<rparr>\<rparr>"

definition count_successful :: "AsyncLLMGenerator \<Rightarrow> AsyncLLMGenerator" where
  "count_successful g = g\<lparr>stats := (stats g)\<lparr>successful_requests := successful_requests (stats g) + 1\<rparr>\<rparr>"

definition count_failed :: "AsyncLLMGenerator \<Rightarrow> AsyncLLMGenerator" where
  "count_failed g = g\<lparr>stats := (stats g)\<lparr>failed_requests := failed_requests (stats g) + 1\<rparr>\<rparr>"

definition count_retry :: "AsyncLLMGenerator \<Rightarrow> AsyncLLMGenerator" where
  "count_retry g = g\<lparr>stats := (stats g)\<lparr>retries := retries (stats g) + 1\<rparr>\<rparr>"

definition add_total_time :: "real \<Rightarrow> AsyncLLMGenerator \<Rightarrow> AsyncLLMGenerator" where
  "add_total_time elapsed g = g\<lparr>stats := (stats g)\<lparr>total_time := total_time (stats g) + elapsed\<rparr>\<rparr>"

definition sleep :: "real \<Rightarrow> AsyncLLMGenerator \<Rightarrow> AsyncLLMGenerator" where
  "sleep seconds g = g\<lparr>slept := slept g @ [seconds]\<rparr>"

text \<open>Leaving \<^verbatim>\<open>async with self.semaphore\<close> gives the slot back.\<close>

definition release :: "AsyncLLMGenerator \<Rightarrow> AsyncLLMGenerator" where
  "release g = g\<lparr>semaphore := map_option (\<lambda>v. v + 1) (semaphore g)\<rparr>"

text \<open>
  One pass through the \<^verbatim>\<open>try\<close> block up to the point where it either returns the text or
  enters the retry code: \<open>Some\<close> is the text returned, \<open>None\<close> says that the status was not
  200 or that an exception was caught. The elapsed time is added as soon as a response
  arrives, before its status is looked at; \<^verbatim>\<open>successful_requests\<close> is counted after the
  body decoded and before the text is taken out of it.
\<close>

definition attempt_effect :: "attempt \<Rightarrow> AsyncLLMGenerator \<Rightarrow> string option \<times> AsyncLLMGenerator" where
  "attempt_effect a g =
     (let g1 = count_total g
      in case a of
           Answered status elapsed b \<Rightarrow>
             (let g2 = add_total_time elapsed g1
              in if status = 200 then
                   (case b of
                      Content text \<Rightarrow> (Some (py_strip text), count_successful g2)
                    | NoContent \<Rightarrow> (None, count_successful g2)
                    | Undecodable \<Rightarrow> (None, g2))
                 else (None, g2))
         | TimedOut \<Rightarrow> (None, g1)
         | Failed \<Rightarrow> (None, g1))"

text \<open>
  \<^verbatim>\<open>call_llm_async\<close>; \<open>api n\<close> is what the endpoint does with the attempt made at retry
  count \<open>n\<close>. The three retry blocks of the source (status, timeout, other exception) are
  the same code and appear once. The retry is a call of the function itself from inside
  the \<^verbatim>\<open>async with\<close> block, so the caller keeps its slot while the inner call asks for
  another one. An exception of the inner call is passed on here; there is none, since the
  inner call finds the semaphore its caller holds (lemma \<open>call_llm_async_never_raises\<close>).
\<close>

function call_llm_async ::
  "config \<Rightarrow> (nat \<Rightarrow> attempt) \<Rightarrow> nat \<Rightarrow> AsyncLLMGenerator \<Rightarrow> string option outcome \<times> AsyncLLMGenerator" where
  "call_llm_async cfg api retry_count g =
     (case semaphore g of
        None \<Rightarrow> (Raised TypeError, g)
      | Some v \<Rightarrow>
          if v \<le> 0 then (Blocked, g)
          else
            (case attempt_effect (api retry_count) (g\<lparr>semaphore := Some (v - 1)\<rparr>) of
               (Some text, g1) \<Rightarrow> (Returned (Some text), release g1)
             | (None, g1) \<Rightarrow>
                 if int retry_count < max_retries cfg then
                   (case call_llm_async cfg api (Suc retry_count)
                           (sleep (retry_delay cfg * (real retry_count + 1)) (count_retry g1)) of
                      (Returned r, g2) \<Rightarrow> (Returned r, release g2)
                    | (Blocked, g2) \<Rightarrow> (Blocked, g2)
                    | (Raised e, g2) \<Rightarrow> (Raised e, release g2))
                 else (Returned None, release (count_failed g1))))"
  by pat_completeness auto
termination
  by (relation "measure (\<lambda>(cfg, api, retry_count, g). nat (max_retries cfg - int retry_count))") auto

declare call_llm_async.simps [simp del]

section \<open>Batch orchestrator\<close>

text \<open>
  \<^verbatim>\<open>process_batch_async\<close>. The prompt is a function of the task type and the items, so the
  endpoint's behaviour is given per task type and item list. A task type other than the
  three known ones returns \<^verbatim>\<open>None\<close> without a request; so does an empty or missing answer.
\<close>

definition process_batch_async ::
  "config \<Rightarrow> (string \<Rightarrow> 'i list \<Rightarrow> nat \<Rightarrow> attempt) \<Rightarrow> 'i list \<Rightarrow> string \<Rightarrow> AsyncLLMGenerator
     \<Rightarrow> json list option outcome \<times> AsyncLLMGenerator" where
  "process_batch_async cfg api items task_type g =
     (if task_type \<noteq> ''green'' \<and> task_type \<noteq> ''tech'' \<and> task_type \<noteq> ''location'' then (Returned None, g)
      else
        (case call_llm_async cfg (api task_type items) 0 g of
           (Returned None, g') \<Rightarrow> (Returned None, g')
         | (Returned (Some response), g') \<Rightarrow>
             if response = [] then (Returned None, g') else (Returned (parse_response response), g')
         | (Blocked, g') \<Rightarrow> (Blocked, g')
         | (Raised e, g') \<Rightarrow> (Raised e, g')))"

text \<open>
  \<^verbatim>\<open>range(0, len(xs), batch_size)\<close> with the slices \<^verbatim>\<open>xs[i:i + batch_size]\<close>: a zero step
  raises \<^verbatim>\<open>ValueError\<close>, a negative one gives no batch.
\<close>

function batches :: "nat \<Rightarrow> 'a list \<Rightarrow> 'a list list" where
  "batches n xs = (if n = 0 \<or> xs = [] then [] else take n xs # batches n (drop n xs))"
  by pat_completeness auto
termination
  by (relation "measure (\<lambda>(n, xs). length xs)") auto

declare batches.simps [simp del]

definition split_batches :: "int \<Rightarrow> 'a list \<Rightarrow> py_error + 'a list list" where
  "split_batches step xs =
     (if step = 0 then Inl ValueError
      else if step < 0 then Inr []
      else Inr (batches (nat step) xs))"

text \<open>The entries \<^verbatim>\<open>(task_type, patent_ids, task)\<close> of \<^verbatim>\<open>tasks\<close>; the batch stands for the coroutine.\<close>

definition make_tasks :: "config \<Rightarrow> patent list list \<Rightarrow> (string \<times> string list \<times> patent list) list" where
  "make_tasks cfg bs =
     concat (map (\<lambda>batch.
        (if enable_green_classification cfg then [(''green'', map patentId batch, batch)] else []) @
        (if enable_tech_classification cfg then [(''tech'', map patentId batch, batch)] else [])) bs)"

text \<open>
  \<^verbatim>\<open>asyncio.gather(..., return_exceptions=True)\<close>: one result per task, in the order of the
  tasks, an exception being a result like any other. The tasks are run one after the
  other here, which is one of the schedules the event loop may take; \<open>gather\<close> does not
  return while a task is suspended for ever.
\<close>

fun gather ::
  "config \<Rightarrow> (string \<Rightarrow> patent list \<Rightarrow> nat \<Rightarrow> attempt) \<Rightarrow> (string \<times> string list \<times> patent list) list
     \<Rightarrow> AsyncLLMGenerator \<Rightarrow> json list option outcome list outcome \<times> AsyncLLMGenerator" where
  "gather cfg api [] g = (Returned [], g)"
| "gather cfg api (t # ts) g =
     (case process_batch_async cfg api (snd (snd t)) (fst t) g of
        (Blocked, g') \<Rightarrow> (Blocked, g')
      | (r, g') \<Rightarrow>
          (case gather cfg api ts g' of
             (Returned rs, g'') \<Rightarrow> (Returned (r # rs), g'')
           | (other, g'') \<Rightarrow> (other, g'')))"

text \<open>The loop that saves the results: a result is stored when it is a non-empty list.\<close>

fun save_results ::
  "(string \<times> string list \<times> patent list) list \<Rightarrow> json list option outcome list \<Rightarrow> JSONStorage \<Rightarrow> JSONStorage" where
  "save_results (t # ts) (r # rs) st =
     save_results ts rs
       (case r of
          Returned (Some result) \<Rightarrow>
            if result \<noteq> [] then
              (if fst t = ''green'' then append_data NoFault green_classifications result st
               else if fst t = ''tech'' then append_data NoFault tech_classifications result st
               else st)
            else st
        | _ \<Rightarrow> st)"
| "save_results ts rs st = st"

text \<open>
  \<^verbatim>\<open>list(set(ids))\<close>: each id once. Python fixes no order for it; the model takes the order
  of \<open>remdups\<close>, and the theorems below speak of membership and counts only.
\<close>

definition py_list_set :: "string list \<Rightarrow> string list" where
  "py_list_set ids = remdups ids"

text \<open>
  One pass through the body of the \<^verbatim>\<open>while\<close> loop of \<^verbatim>\<open>process_patents_async\<close>, after the
  fetch: dispatch, await, save, mark, pause. \<open>now\<close> gives the text of the \<open>n\<close>-th clock
  reading.
\<close>

definition patents_cycle ::
  "config \<Rightarrow> (string \<Rightarrow> patent list \<Rightarrow> nat \<Rightarrow> attempt) \<Rightarrow> (nat \<Rightarrow> string) \<Rightarrow> patent list
     \<Rightarrow> AsyncLLMGenerator \<Rightarrow> AsyncLLMGenerator outcome" where
  "patents_cycle cfg api now patents g =
     (case split_batches (batch_size cfg) patents of
        Inl e \<Rightarrow> Raised e
      | Inr bs \<Rightarrow>
          (let tasks = make_tasks cfg bs
           in case gather cfg api tasks g of
                (Returned results, g1) \<Rightarrow>
                  (let st1 = save_results tasks results (storage g1);
                       all_patent_ids = concat (map (\<lambda>t. fst (snd t)) tasks);
                       st2 = mark_processed_patents NoFault (now (clock g1)) (py_list_set all_patent_ids) st1
                   in Returned (sleep (1 / 10) (g1\<lparr>storage := st2, clock := Suc (clock g1)\<rparr>)))
              | (Blocked, g1) \<Rightarrow> Blocked
              | (Raised e, g1) \<Rightarrow> Raised e))"

text \<open>
  \<^verbatim>\<open>process_patents_async\<close>. The loop need not end, so it runs on fuel and \<open>None\<close> says the
  fuel ran out. \<open>signal k\<close> tells whether an interrupt or termination signal is delivered
  while the \<open>k\<close>-th pass is under way; the pass does not read the flag, so the handler's
  assignment is applied when the pass is over.
\<close>

fun process_patents_async ::
  "nat \<Rightarrow> config \<Rightarrow> (string \<Rightarrow> patent list \<Rightarrow> nat \<Rightarrow> attempt) \<Rightarrow> (nat \<Rightarrow> string) \<Rightarrow> (nat \<Rightarrow> bool) \<Rightarrow> nat
     \<Rightarrow> AsyncLLMGenerator \<Rightarrow> AsyncLLMGenerator outcome option" where
  "process_patents_async 0 cfg api now signal k g = None"
| "process_patents_async (Suc fuel) cfg api now signal k g =
     (if should_stop g then Some (Returned g)
      else
        (let patents = get_unprocessed_patents g (batch_size cfg * max_concurrent_requests cfg)
         in if patents = [] then Some (Returned g)
            else
              (case patents_cycle cfg api now patents g of
                 Returned g' \<Rightarrow>
                   process_patents_async fuel cfg api now signal (Suc k)
                     (if signal k then signal_handler g' else g')
               | Blocked \<Rightarrow> Some Blocked
               | Raised e \<Rightarrow> Some (Raised e))))"

text \<open>
  \<^verbatim>\<open>process_entities_async\<close>: the inner \<^verbatim>\<open>for\<close> loop over the batches of ten, one awaited
  call after the other, then the \<^verbatim>\<open>while\<close> loop around it.
\<close>

fun entities_batches ::
  "config \<Rightarrow> (string \<Rightarrow> entity list \<Rightarrow> nat \<Rightarrow> attempt) \<Rightarrow> (nat \<Rightarrow> string) \<Rightarrow> entity list list
     \<Rightarrow> AsyncLLMGenerator \<Rightarrow> AsyncLLMGenerator outcome" where
  "entities_batches cfg api now [] g = Returned g"
| "entities_batches cfg api now (batch # bs) g =
     (case process_batch_async cfg api batch ''location'' g of
        (Returned result, g1) \<Rightarrow>
          (let st1 = (case result of
                        Some r \<Rightarrow> if r \<noteq> [] then append_data NoFault entity_locations r (storage g1)
                                  else storage g1
                      | None \<Rightarrow> storage g1);
               st2 = mark_processed_entities NoFault (now (clock g1)) (map normalizedName batch) st1
           in entities_batches cfg api now bs
                (sleep (1 / 2) (g1\<lparr>storage := st2, clock := Suc (clock g1)\<rparr>)))
      | (Blocked, g1) \<Rightarrow> Blocked
      | (Raised e, g1) \<Rightarrow> Raised e)"

fun entities_loop ::
  "nat \<Rightarrow> config \<Rightarrow> (string \<Rightarrow> entity list \<Rightarrow> nat \<Rightarrow> attempt) \<Rightarrow> (nat \<Rightarrow> string) \<Rightarrow> (nat \<Rightarrow> bool) \<Rightarrow> nat
     \<Rightarrow> AsyncLLMGenerator \<Rightarrow> AsyncLLMGenerator outcome option" where
  "entities_loop 0 cfg api now signal k g = None"
| "entities_loop (Suc fuel) cfg api now signal k g =
     (if should_stop g then Some (Returned g)
      else
        (let entities = get_unprocessed_entities g (10 * 10)
         in if entities = [] then Some (Returned g)
            else
              (case entities_batches cfg api now (batches 10 entities) g of
                 Returned g' \<Rightarrow>
                   entities_loop fuel cfg api now signal (Suc k)
                     (if signal k then signal_handler g' else g')
               | Blocked \<Rightarrow> Some Blocked
               | Raised e \<Rightarrow> Some (Raised e))))"

definition process_entities_async ::
  "nat \<Rightarrow> config \<Rightarrow> (string \<Rightarrow> entity list \<Rightarrow> nat \<Rightarrow> attempt) \<Rightarrow> (nat \<Rightarrow> string) \<Rightarrow> (nat \<Rightarrow> bool)
     \<Rightarrow> AsyncLLMGenerator \<Rightarrow> AsyncLLMGenerator outcome option" where
  "process_entities_async fuel cfg api now signal g =
     (if \<not> enable_location_extraction cfg then Some (Returned g)
      else entities_loop fuel cfg api now signal 0 g)"

section \<open>A run: start of the process and \<^verbatim>\<open>generate_all_async\<close>\<close>

definition default_ledger :: "string \<Rightarrow> ledger" where
  "default_ledger sid =
     \<lparr>processed_patents = [], processed_entities = [], ledger_session_id = sid, last_update = None\<rparr>"

text \<open>\<^verbatim>\<open>_load_json\<close>: the stored document, or the empty default when there is no file or it does not decode.\<close>

definition load_json :: "JSONStorage \<Rightarrow> data_type \<Rightarrow> document" where
  "load_json st k =
     (case disk st (files st k) of
        Some (Doc d) \<Rightarrow> d
      | Some Malformed \<Rightarrow>
          if k = progress then Ledger (default_ledger (session_id st)) else Results []
      | None \<Rightarrow>
          if k \<noteq> progress then Results [] else Ledger (default_ledger (session_id st)))"

text \<open>
  \<^verbatim>\<open>JSONStorage.__init__\<close>. The source keeps whatever the files decode to; the model follows
  it for files of the shape the program writes (a list for a result kind, the progress
  dict for the ledger, and the empty list that \<^verbatim>\<open>or\<close> replaces by the default ledger) and
  gives \<open>None\<close> for any other, where the source goes on and raises at a later access.
\<close>

definition JSONStorage_init :: "string \<Rightarrow> string \<Rightarrow> disk \<Rightarrow> JSONStorage option" where
  "JSONStorage_init dir sid d =
     (let st = \<lparr>output_dir = dir, session_id = sid, green_data = [], tech_data = [],
                location_data = [], progress_data = default_ledger sid, disk = d\<rparr>
      in case (load_json st green_classifications, load_json st tech_classifications,
               load_json st entity_locations, load_json st progress) of
           (Results gs, Results ts, Results ls, Ledger p) \<Rightarrow>
             Some (st\<lparr>green_data := gs, tech_data := ts, location_data := ls, progress_data := p\<rparr>)
         | (Results gs, Results ts, Results ls, Results []) \<Rightarrow>
             Some (st\<lparr>green_data := gs, tech_data := ts, location_data := ls\<rparr>)
         | _ \<Rightarrow> None)"

text \<open>
  \<^verbatim>\<open>AsyncLLMGenerator.__init__\<close>: \<open>given\<close> is the session id passed in (\<open>None\<close> or empty for a
  new session, named \<open>fresh\<close> after the time of day), \<open>patents\<close> the list read from the
  spreadsheets.
\<close>

definition AsyncLLMGenerator_init ::
  "string \<Rightarrow> string option \<Rightarrow> string \<Rightarrow> (string \<Rightarrow> string option) \<Rightarrow> patent list \<Rightarrow> disk
     \<Rightarrow> AsyncLLMGenerator option" where
  "AsyncLLMGenerator_init dir given fresh normalize_name patents d =
     (let sid = (case given of Some s \<Rightarrow> if s \<noteq> [] then s else fresh | None \<Rightarrow> fresh)
      in case JSONStorage_init dir sid d of
           None \<Rightarrow> None
         | Some st \<Rightarrow>
             Some \<lparr>storage = st, semaphore = None, should_stop = False,
                   stats = \<lparr>total_requests = 0, successful_requests = 0, failed_requests = 0,
                            retries = 0, total_time = 0\<rparr>,
                   all_patents = patents,
                   all_entities = extract_entities_from_patents normalize_name patents,
                   slept = [], clock = 0\<rparr>)"

text \<open>
  \<^verbatim>\<open>generate_all_async\<close>: create the semaphore (a negative size raises \<^verbatim>\<open>ValueError\<close>), then
  the patents, then the entities.
\<close>

definition generate_all_async ::
  "nat \<Rightarrow> config \<Rightarrow> (string \<Rightarrow> patent list \<Rightarrow> nat \<Rightarrow> attempt) \<Rightarrow> (string \<Rightarrow> entity list \<Rightarrow> nat \<Rightarrow> attempt)
     \<Rightarrow> (nat \<Rightarrow> string) \<Rightarrow> (nat \<Rightarrow> bool) \<Rightarrow> (nat \<Rightarrow> bool) \<Rightarrow> AsyncLLMGenerator
     \<Rightarrow> AsyncLLMGenerator outcome option" where
  "generate_all_async fuel cfg api_patents api_entities now signal_patents signal_entities g =
     (if max_concurrent_requests cfg < 0 then Some (Raised ValueError)
      else
        (case process_patents_async fuel cfg api_patents now signal_patents 0
                (g\<lparr>semaphore := Some (max_concurrent_requests cfg)\<rparr>) of
           Some (Returned g1) \<Rightarrow> process_entities_async fuel cfg api_entities now signal_entities g1
         | other \<Rightarrow> other))"

text \<open>\<^verbatim>\<open>get_stats\<close>: the sizes of the five collections.\<close>

definition get_stats :: "JSONStorage \<Rightarrow> nat \<times> nat \<times> nat \<times> nat \<times> nat" where
  "get_stats st =
     (length (processed_patents (progress_data st)), length (processed_entities (progress_data st)),
      length (green_data st), length (tech_data st), length (location_data st))"




section \<open>Concrete inputs\<close>

text \<open>The values of \<^verbatim>\<open>LLM_ENHANCE_CONFIG\<close> in \<^verbatim>\<open>config.py\<close>.\<close>

definition shipped_config :: config where
  "shipped_config =
     \<lparr>batch_size = 10, enable_tech_classification = True, enable_green_classification = True,
      enable_location_extraction = True, max_concurrent_requests = 5, max_retries = 3,
      retry_delay = 3\<rparr>"

text \<open>
  A session \<^verbatim>\<open>s1\<close> under \<^verbatim>\<open>out\<close> that has stored one green classification and nothing
  else, as it is in memory and on disk after that append.
\<close>

definition one_record_store :: JSONStorage where
  "one_record_store =
     \<lparr>output_dir = ''out'', session_id = ''s1'',
      green_data = [JObject [(''patent_id'', JString ''CN1'')]],
      tech_data = [], location_data = [],
      progress_data = default_ledger ''s1'',
      disk = [''out/s1_green_classifications.json'' \<mapsto>
                Doc (Results [JObject [(''patent_id'', JString ''CN1'')]])]\<rparr>"

text \<open>A generator of a fresh session with one patent to do and its semaphore created.\<close>

definition one_patent_generator :: "int \<Rightarrow> AsyncLLMGenerator" where
  "one_patent_generator slots =
     \<lparr>storage = \<lparr>output_dir = ''out'', session_id = ''s1'', green_data = [], tech_data = [],
                  location_data = [], progress_data = default_ledger ''s1'', disk = Map.empty\<rparr>,
      semaphore = Some slots, should_stop = False,
      stats = \<lparr>total_requests = 0, successful_requests = 0, failed_requests = 0,
               retries = 0, total_time = 0\<rparr>,
      all_patents = [\<lparr>patentId = ''CN1'', applicants = [''Acme Corp''], currentOwners = [''Acme Corp'']\<rparr>],
      all_entities = [], slept = [], clock = 0\<rparr>"

text \<open>One patent whose applicants and owner normalise to the same name under a toy normaliser.\<close>

definition acme_patents :: "patent list" where
  "acme_patents =
     [\<lparr>patentId = ''CN1'', applicants = [''Acme Corp'', ''Acme Ltd''], currentOwners = [''Acme Corp'']\<rparr>]"

text \<open>
  The disk of a session \<^verbatim>\<open>s1\<close> that has processed that patent and its entity and stored one
  green classification.
\<close>

definition resumed_disk :: disk where
  "resumed_disk =
     [''out/s1_progress.json'' \<mapsto>
        Doc (Ledger \<lparr>processed_patents = [JString ''CN1''], processed_entities = [JString ''Acme''],
                     ledger_session_id = ''s1'', last_update = Some ''2026-01-01T00:00:00''\<rparr>),
      ''out/s1_green_classifications.json'' \<mapsto>
        Doc (Results [JObject [(''patent_id'', JString ''CN1'')]])]"

section \<open>Durable store: persistence and append\<close>


lemma files_save_json [simp]: "files (save_json flt k st) k' = files st k'"
  by (simp add: files_def save_json_def)

lemma data_save_json [simp]: "data (save_json flt k st) k' = data st k'"
  by (cases k') (simp_all add: save_json_def)

lemma files_append_in_memory [simp]: "files (append_in_memory k items st) k' = files st k'"
  by (cases k) (simp_all add: files_def append_in_memory_def)

text \<open>
  Claim C1. Persisting after an append is meant to replace the stored file atomically, so
  that the result file is always in its state before or after the call, never absent.
  The source's docstring and comment say so (``atomic operation''), but the code removes
  the file and then renames the temporary one. For a session whose green file holds one
  record, the states the disk goes through during the append of a second record show the
  file absent between the two steps, and when the rename is refused the call returns with
  the file absent.
\<close>

theorem C1_crash_window:
  "map (\<lambda>d. d (files one_record_store green_classifications))
     (append_data_states NoFault green_classifications [JObject [(''patent_id'', JString ''CN2'')]]
        one_record_store)
   = [Some (Doc (Results [JObject [(''patent_id'', JString ''CN1'')]])),
      Some (Doc (Results [JObject [(''patent_id'', JString ''CN1'')]])),
      Some (Doc (Results [JObject [(''patent_id'', JString ''CN1'')]])),
      None,
      Some (Doc (Results [JObject [(''patent_id'', JString ''CN1'')],
                          JObject [(''patent_id'', JString ''CN2'')]]))]
   \<and> disk (append_data RenameFails green_classifications [JObject [(''patent_id'', JString ''CN2'')]]
              one_record_store)
        (files one_record_store green_classifications) = None"
  by (simp add: one_record_store_def append_data_states_def append_data_def save_json_def
      save_json_states_def files_def path_join_def append_in_memory_def Let_def)




section \<open>Decoding: brackets and the array between them\<close>

lemma find_from_absent: "c \<notin> set s \<Longrightarrow> find_from c s i = - 1"
  by (induction s arbitrary: i) auto















section \<open>The decoder never fails for lack of fuel\<close>

text \<open>
  A value that the scanner decodes with some bound on the nesting of calls is decoded
  with every bound from twice the number of characters read, so \<open>json_loads\<close> returns
  \<open>None\<close> only where no bound would make the scanner succeed.
\<close>

lemma skip_ws_length: "length (skip_ws s) \<le> length s"
  by (simp add: skip_ws_def length_dropWhile_le)

lemma skip_ws_Cons_length: "skip_ws s = d # r \<Longrightarrow> length r < length s"
  using skip_ws_length [of s] by simp

lemma scanstring_shorter: "scanstring s = Some (l, r) \<Longrightarrow> length r < length s"
proof (induction s arbitrary: l r rule: scanstring.induct)
  case 1
  then show ?case by simp
next
  case (2 c cs)
  show ?case
  proof (cases "c = CHR 0x22")
    case True
    with "2.prems" show ?thesis by simp
  next
    case nq: False
    show ?thesis
    proof (cases "c = CHR 0x5C")
      case True
      show ?thesis
      proof (cases cs)
        case Nil
        with "2.prems" nq True show ?thesis by simp
      next
        case (Cons e es)
        show ?thesis
        proof (cases "e \<in> set [CHR 0x22, CHR 0x5C, CHR ''/'', CHR ''b'', CHR ''f'', CHR ''n'', CHR ''r'', CHR ''t'']")
          case e1: True
          with "2.prems" nq True Cons obtain l' where "scanstring es = Some (l', r)"
            by (auto simp del: set_simps)
          from "2.IH"(1) [OF nq True Cons e1 this] Cons show ?thesis by simp
        next
          case e2: False
          show ?thesis
          proof (cases "e = CHR ''u'' \<and> 4 \<le> length es \<and> list_all is_hex (take 4 es)")
            case u: True
            with "2.prems" nq \<open>c = CHR 0x5C\<close> Cons e2 obtain l' where "scanstring (drop 4 es) = Some (l', r)"
              by (auto simp del: set_simps)
            from "2.IH"(2) [OF nq \<open>c = CHR 0x5C\<close> Cons e2 u this] Cons show ?thesis by simp
          next
            case False
            with "2.prems" nq \<open>c = CHR 0x5C\<close> Cons e2 show ?thesis by (auto simp del: set_simps)
          qed
        qed
      qed
    next
      case nb: False
      show ?thesis
      proof (cases "(of_char c :: nat) < 32")
        case True
        with "2.prems" nq nb show ?thesis by simp
      next
        case False
        with "2.prems" nq nb obtain l' where "scanstring cs = Some (l', r)" by auto
        from "2.IH"(3) [OF nq nb False this] show ?thesis by simp
      qed
    qed
  qed
qed

lemma scan_frac_part_length: "scan_frac_part s = (l, r) \<Longrightarrow> length r \<le> length s"
  using length_dropWhile_le [of is_digit "tl s"]
  by (auto simp: scan_frac_part_def split: list.splits if_splits)

lemma scan_exp_part_length: "scan_exp_part s = (l, r) \<Longrightarrow> length r \<le> length s"
proof (cases s)
  case Nil
  assume "scan_exp_part s = (l, r)"
  with Nil show ?thesis by (simp add: scan_exp_part_def)
next
  case (Cons c cs)
  assume a: "scan_exp_part s = (l, r)"
  show ?thesis
  proof (cases "r = s")
    case True
    then show ?thesis by simp
  next
    case False
    with a Cons obtain k where "r = dropWhile is_digit (drop k cs)"
      by (auto simp: scan_exp_part_def Let_def split: if_splits)
    moreover have "length (dropWhile is_digit (drop k cs)) \<le> length (drop k cs)"
      by (rule length_dropWhile_le)
    ultimately show ?thesis using Cons by simp
  qed
qed

lemma scan_int_part_shorter: "scan_int_part s = Some (l, r) \<Longrightarrow> length r < length s"
  using length_dropWhile_le [of is_digit "tl s"]
  by (auto simp: scan_int_part_def split: list.splits if_splits)

lemma scan_number_shorter: "scan_number s = Some (l, r) \<Longrightarrow> length r < length s"
proof -
  assume a: "scan_number s = Some (l, r)"
  let ?k = "length (case s of c # cs \<Rightarrow> if c = CHR ''-'' then [c] else [] | [] \<Rightarrow> [])"
  from a obtain ip r1 fp r2 ep where
    i: "scan_int_part (drop ?k s) = Some (ip, r1)"
    and f: "scan_frac_part r1 = (fp, r2)" and e: "scan_exp_part r2 = (ep, r)"
    by (auto simp: scan_number_def Let_def split: option.splits prod.splits)
  from scan_int_part_shorter [OF i] scan_frac_part_length [OF f] scan_exp_part_length [OF e]
  show ?thesis by simp
qed

lemma take_literal_length: "take n s = l \<Longrightarrow> length l = n \<Longrightarrow> 0 < n \<Longrightarrow> length (drop n s) < length s"
  by (cases "n \<le> length s") auto

lemma scan_once_scalar:
  "c \<noteq> CHR ''{'' \<Longrightarrow> c \<noteq> CHR ''['' \<Longrightarrow> scan_once (Suc k) (c # cs) = scan_once (Suc 0) (c # cs)"
  by simp

lemma scan_once_scalar_shorter:
  assumes "c \<noteq> CHR ''{''" "c \<noteq> CHR ''[''" "scan_once (Suc k) (c # cs) = Some (v, r)"
  shows "length r < length (c # cs)"
proof (cases "c = CHR 0x22")
  case True
  with assms(3) obtain l where "scanstring cs = Some (l, r)" by auto
  from scanstring_shorter [OF this] show ?thesis by simp
next
  case nq: False
  consider (null) "take 4 (c # cs) = ''null''" "r = drop 4 (c # cs)"
    | (true) "take 4 (c # cs) = ''true''" "r = drop 4 (c # cs)"
    | (false) "take 5 (c # cs) = ''false''" "r = drop 5 (c # cs)"
    | (num) l where "scan_number (c # cs) = Some (l, r)"
    | (nan) "take 3 (c # cs) = ''NaN''" "r = drop 3 (c # cs)"
    | (inf) "take 8 (c # cs) = ''Infinity''" "r = drop 8 (c # cs)"
    | (ninf) "take 9 (c # cs) = ''-Infinity''" "r = drop 9 (c # cs)"
    using assms nq
    by (simp split: if_splits option.splits prod.splits del: take_Cons_numeral drop_Cons_numeral)
  then show ?thesis
  proof cases
    case null then show ?thesis using take_literal_length [of 4 "c # cs" "''null''"] by simp
  next
    case true then show ?thesis using take_literal_length [of 4 "c # cs" "''true''"] by simp
  next
    case false then show ?thesis using take_literal_length [of 5 "c # cs" "''false''"] by simp
  next
    case num then show ?thesis using scan_number_shorter by blast
  next
    case nan then show ?thesis using take_literal_length [of 3 "c # cs" "''NaN''"] by simp
  next
    case inf then show ?thesis using take_literal_length [of 8 "c # cs" "''Infinity''"] by simp
  next
    case ninf then show ?thesis using take_literal_length [of 9 "c # cs" "''-Infinity''"] by simp
  qed
qed

lemma fuel_enough:
  "(scan_once m s = Some (v, r) \<longrightarrow>
      length r < length s \<and> (\<forall>n. 2 * (length s - length r) \<le> n \<longrightarrow> scan_once n s = Some (v, r)))
   \<and> (parse_array m s acc = Some (v, r) \<longrightarrow>
      length r < length s \<and> (\<forall>n. 2 * (length s - length r) \<le> n \<longrightarrow> parse_array n s acc = Some (v, r)))
   \<and> (parse_object m s kvs = Some (v, r) \<longrightarrow>
      length r < length s \<and> (\<forall>n. 2 * (length s - length r) \<le> n \<longrightarrow> parse_object n s kvs = Some (v, r)))"
proof (induction m arbitrary: s acc kvs v r)
  case 0
  show ?case by simp
next
  case (Suc m)
  note ih_once = Suc.IH [THEN conjunct1, rule_format]
  note ih_array = Suc.IH [THEN conjunct2, THEN conjunct1, rule_format]
  note ih_object = Suc.IH [THEN conjunct2, THEN conjunct2, rule_format]
  have once: "length r < length s \<and> (\<forall>n. 2 * (length s - length r) \<le> n \<longrightarrow> scan_once n s = Some (v, r))"
    if a: "scan_once (Suc m) s = Some (v, r)" for s v r
  proof (cases s)
    case Nil
    with a show ?thesis by simp
  next
    case (Cons c cs)
    show ?thesis
    proof (cases "c = CHR ''{''")
      case brace: True
      from a Cons brace obtain d r0 where ws: "skip_ws cs = d # r0"
        by (cases "skip_ws cs") auto
      from skip_ws_length [of cs] ws have l0: "Suc (length r0) \<le> length cs" by simp
      show ?thesis
      proof (cases "d = CHR ''}''")
        case True
        with a Cons brace ws have vr: "v = JObject []" "r = r0" by auto
        have "scan_once n s = Some (v, r)" if "2 * (length s - length r) \<le> n" for n
        proof -
          from that l0 vr Cons obtain n' where "n = Suc n'" by (cases n) auto
          with Cons brace ws True vr show ?thesis by simp
        qed
        with l0 vr Cons show ?thesis by simp
      next
        case False
        with a Cons brace ws have q: "d = CHR 0x22" and po: "parse_object m (d # r0) [] = Some (v, r)"
          by (auto split: if_splits)
        from ih_object [OF po] have lr: "length r < length (d # r0)"
          and en: "\<And>n. 2 * (length (d # r0) - length r) \<le> n \<Longrightarrow> parse_object n (d # r0) [] = Some (v, r)"
          by auto
        have "scan_once n s = Some (v, r)" if "2 * (length s - length r) \<le> n" for n
        proof -
          from that l0 lr Cons obtain n' where n': "n = Suc n'" by (cases n) auto
          with that l0 lr Cons have "2 * (length (d # r0) - length r) \<le> n'" by simp
          from en [OF this] n' Cons brace ws False q show ?thesis by simp
        qed
        with l0 lr Cons show ?thesis by simp
      qed
    next
      case nbrace: False
      show ?thesis
      proof (cases "c = CHR ''[''")
        case bracket: True
        from a Cons bracket obtain d r0 where ws: "skip_ws cs = d # r0"
          by (cases "skip_ws cs") auto
        from skip_ws_length [of cs] ws have l0: "Suc (length r0) \<le> length cs" by simp
        show ?thesis
        proof (cases "d = CHR '']''")
          case True
          with a Cons bracket ws have vr: "v = JArray []" "r = r0" by auto
          have "scan_once n s = Some (v, r)" if "2 * (length s - length r) \<le> n" for n
          proof -
            from that l0 vr Cons obtain n' where "n = Suc n'" by (cases n) auto
            with Cons bracket ws True vr show ?thesis by simp
          qed
          with l0 vr Cons show ?thesis by simp
        next
          case False
          with a Cons bracket ws have pa: "parse_array m (d # r0) [] = Some (v, r)"
            by (auto split: if_splits)
          from ih_array [OF pa] have lr: "length r < length (d # r0)"
            and en: "\<And>n. 2 * (length (d # r0) - length r) \<le> n \<Longrightarrow> parse_array n (d # r0) [] = Some (v, r)"
            by auto
          have "scan_once n s = Some (v, r)" if "2 * (length s - length r) \<le> n" for n
          proof -
            from that l0 lr Cons obtain n' where n': "n = Suc n'" by (cases n) auto
            with that l0 lr Cons have "2 * (length (d # r0) - length r) \<le> n'" by simp
            from en [OF this] n' Cons bracket ws False show ?thesis by simp
          qed
          with l0 lr Cons show ?thesis by simp
        qed
      next
        case nbracket: False
        from a Cons have a': "scan_once (Suc m) (c # cs) = Some (v, r)" by simp
        from scan_once_scalar_shorter [OF nbrace nbracket a'] have lr: "length r < length (c # cs)" .
        have "scan_once n s = Some (v, r)" if "2 * (length s - length r) \<le> n" for n
        proof -
          from that lr Cons obtain n' where n': "n = Suc n'" by (cases n) auto
          have "scan_once (Suc n') (c # cs) = scan_once (Suc 0) (c # cs)"
            using nbrace nbracket by (rule scan_once_scalar)
          also have "\<dots> = scan_once (Suc m) (c # cs)"
            using nbrace nbracket by (rule scan_once_scalar [symmetric])
          finally show ?thesis using a' n' Cons by simp
        qed
        with lr Cons show ?thesis by simp
      qed
    qed
  qed
  have array: "length r < length s \<and> (\<forall>n. 2 * (length s - length r) \<le> n \<longrightarrow> parse_array n s acc = Some (v, r))"
    if a: "parse_array (Suc m) s acc = Some (v, r)" for s acc v r
  proof -
    from a obtain v1 r1 where so: "scan_once m s = Some (v1, r1)"
      by (cases "scan_once m s") auto
    from ih_once [OF so] have l1: "length r1 < length s"
      and e1: "\<And>n. 2 * (length s - length r1) \<le> n \<Longrightarrow> scan_once n s = Some (v1, r1)"
      by auto
    from a so obtain d r' where ws: "skip_ws r1 = d # r'"
      by (cases "skip_ws r1") auto
    from skip_ws_length [of r1] ws have l2: "Suc (length r') \<le> length r1" by simp
    show ?thesis
    proof (cases "d = CHR '']''")
      case True
      with a so ws have vr: "v = JArray (acc @ [v1])" "r = r'" by auto
      have "parse_array n s acc = Some (v, r)" if "2 * (length s - length r) \<le> n" for n
      proof -
        from that l1 l2 vr obtain n' where n': "n = Suc n'" by (cases n) auto
        with that l1 l2 vr have "2 * (length s - length r1) \<le> n'" by simp
        from e1 [OF this] n' ws True vr show ?thesis by simp
      qed
      with l1 l2 vr show ?thesis by simp
    next
      case False
      with a so ws have comma: "d = CHR '',''"
        and pa: "parse_array m (skip_ws r') (acc @ [v1]) = Some (v, r)"
        by (auto split: if_splits)
      from ih_array [OF pa] have lr: "length r < length (skip_ws r')"
        and en: "\<And>n. 2 * (length (skip_ws r') - length r) \<le> n \<Longrightarrow>
                   parse_array n (skip_ws r') (acc @ [v1]) = Some (v, r)"
        by auto
      from skip_ws_length [of r'] have l3: "length (skip_ws r') \<le> length r'" .
      have "parse_array n s acc = Some (v, r)" if "2 * (length s - length r) \<le> n" for n
      proof -
        from that l1 l2 l3 lr obtain n' where n': "n = Suc n'" by (cases n) auto
        with that l1 l2 l3 lr have b1: "2 * (length s - length r1) \<le> n'"
          and b2: "2 * (length (skip_ws r') - length r) \<le> n'" by simp_all
        from e1 [OF b1] en [OF b2] n' ws False comma show ?thesis by simp
      qed
      with l1 l2 l3 lr show ?thesis by simp
    qed
  qed
  have object: "length r < length s \<and> (\<forall>n. 2 * (length s - length r) \<le> n \<longrightarrow> parse_object n s kvs = Some (v, r))"
    if a: "parse_object (Suc m) s kvs = Some (v, r)" for s kvs v r
  proof -
    from a obtain s1 where s: "s = CHR 0x22 # s1"
      by (cases s) (auto split: if_splits)
    from a s obtain key r1 where ss: "scanstring s1 = Some (key, r1)"
      by (cases "scanstring s1") auto
    from scanstring_shorter [OF ss] have l1: "length r1 < length s1" .
    from a s ss obtain colon r2 where ws1: "skip_ws r1 = colon # r2"
      by (cases "skip_ws r1") auto
    from a s ss ws1 have colon: "colon = CHR '':''" by (auto split: if_splits)
    from skip_ws_length [of r1] ws1 have l2: "Suc (length r2) \<le> length r1" by simp
    from a s ss ws1 colon obtain v1 r3 where so: "scan_once m (skip_ws r2) = Some (v1, r3)"
      by (cases "scan_once m (skip_ws r2)") auto
    from ih_once [OF so] have l3: "length r3 < length (skip_ws r2)"
      and e3: "\<And>n. 2 * (length (skip_ws r2) - length r3) \<le> n \<Longrightarrow> scan_once n (skip_ws r2) = Some (v1, r3)"
      by auto
    from skip_ws_length [of r2] have l3': "length (skip_ws r2) \<le> length r2" .
    from a s ss ws1 colon so obtain d r4 where ws2: "skip_ws r3 = d # r4"
      by (cases "skip_ws r3") auto
    from skip_ws_length [of r3] ws2 have l4: "Suc (length r4) \<le> length r3" by simp
    show ?thesis
    proof (cases "d = CHR ''}''")
      case True
      with a s ss ws1 colon so ws2 have vr: "v = JObject (dict_set kvs key v1)" "r = r4" by auto
      have "parse_object n s kvs = Some (v, r)" if "2 * (length s - length r) \<le> n" for n
      proof -
        from that s l1 l2 l3 l3' l4 vr obtain n' where n': "n = Suc n'" by (cases n) auto
        with that s l1 l2 l3 l3' l4 vr have "2 * (length (skip_ws r2) - length r3) \<le> n'" by simp
        from e3 [OF this] n' s ss ws1 colon ws2 True vr show ?thesis by simp
      qed
      with s l1 l2 l3 l3' l4 vr show ?thesis by simp
    next
      case False
      with a s ss ws1 colon so ws2 have comma: "d = CHR '',''"
        and po: "parse_object m (skip_ws r4) (dict_set kvs key v1) = Some (v, r)"
        by (auto split: if_splits)
      from ih_object [OF po] have lr: "length r < length (skip_ws r4)"
        and en: "\<And>n. 2 * (length (skip_ws r4) - length r) \<le> n \<Longrightarrow>
                   parse_object n (skip_ws r4) (dict_set kvs key v1) = Some (v, r)"
        by auto
      from skip_ws_length [of r4] have l5: "length (skip_ws r4) \<le> length r4" .
      have "parse_object n s kvs = Some (v, r)" if "2 * (length s - length r) \<le> n" for n
      proof -
        from that s l1 l2 l3 l3' l4 l5 lr obtain n' where n': "n = Suc n'" by (cases n) auto
        with that s l1 l2 l3 l3' l4 l5 lr have b1: "2 * (length (skip_ws r2) - length r3) \<le> n'"
          and b2: "2 * (length (skip_ws r4) - length r) \<le> n'" by simp_all
        from e3 [OF b1] en [OF b2] n' s ss ws1 colon ws2 False comma show ?thesis by simp
      qed
      with s l1 l2 l3 l3' l4 l5 lr show ?thesis by simp
    qed
  qed
  from once array object show ?case by blast
qed

lemma json_loads_fuel:
  assumes "scan_once m (skip_ws s) = Some (v, r)"
  shows "json_loads s = (if skip_ws r = [] then Some v else None)"
proof -
  from fuel_enough [of m "skip_ws s" v r] assms
  have "length r < length (skip_ws s)"
    and "\<And>n. 2 * (length (skip_ws s) - length r) \<le> n \<Longrightarrow> scan_once n (skip_ws s) = Some (v, r)"
    by auto
  moreover have "2 * (length (skip_ws s) - length r) \<le> 2 * length s + 2"
    using skip_ws_length [of s] by simp
  ultimately have "scan_once (2 * length s + 2) (skip_ws s) = Some (v, r)" by blast
  then show ?thesis by (simp add: json_loads_def)
qed

section \<open>Client: attempts, retries and the semaphore\<close>

lemma attempt_effect_fields:
  assumes "attempt_effect a g = (t, g1)"
  shows "storage g1 = storage g" "semaphore g1 = semaphore g" "should_stop g1 = should_stop g"
    "all_patents g1 = all_patents g" "all_entities g1 = all_entities g" "slept g1 = slept g"
    "clock g1 = clock g"
    "total_requests (stats g1) = total_requests (stats g) + 1"
    "retries (stats g1) = retries (stats g)"
    "failed_requests (stats g1) = failed_requests (stats g)"
  using assms
  by (auto simp: attempt_effect_def Let_def count_total_def add_total_time_def count_successful_def
      split: attempt.splits body.splits if_splits)


lemma call_llm_async_fields:
  "call_llm_async cfg api rc g = (out, g') \<Longrightarrow>
     storage g' = storage g \<and> should_stop g' = should_stop g \<and> all_patents g' = all_patents g
     \<and> all_entities g' = all_entities g \<and> clock g' = clock g
     \<and> (out \<noteq> Blocked \<longrightarrow> semaphore g' = semaphore g)"
proof (induction cfg api rc g arbitrary: out g' rule: call_llm_async.induct)
  case (1 cfg api rc g)
  show ?case
  proof (cases "semaphore g")
    case None
    with "1.prems" show ?thesis by (simp add: call_llm_async.simps)
  next
    case (Some v)
    show ?thesis
    proof (cases "v \<le> 0")
      case True
      with Some "1.prems" show ?thesis by (simp add: call_llm_async.simps)
    next
      case False
      obtain t g1 where ae: "attempt_effect (api rc) (g\<lparr>semaphore := Some (v - 1)\<rparr>) = (t, g1)"
        by (cases "attempt_effect (api rc) (g\<lparr>semaphore := Some (v - 1)\<rparr>)")
      note f1 = attempt_effect_fields [OF ae]
      show ?thesis
      proof (cases t)
        case (Some answer)
        with \<open>semaphore g = Some v\<close> False ae "1.prems" have "g' = release g1" "out = Returned (Some answer)"
          by (simp_all add: call_llm_async.simps)
        with f1 \<open>semaphore g = Some v\<close> show ?thesis
          by (simp add: release_def)
      next
        case None
        show ?thesis
        proof (cases "int rc < max_retries cfg")
          case lt: True
          let ?g2 = "sleep (retry_delay cfg * (real rc + 1)) (count_retry g1)"
          obtain out2 g3 where rec: "call_llm_async cfg api (Suc rc) ?g2 = (out2, g3)"
            by (cases "call_llm_async cfg api (Suc rc) ?g2")
          from "1.IH" [OF \<open>semaphore g = Some v\<close> False ae [symmetric] None lt rec]
          have ih: "storage g3 = storage ?g2" "should_stop g3 = should_stop ?g2"
            "all_patents g3 = all_patents ?g2" "all_entities g3 = all_entities ?g2"
            "clock g3 = clock ?g2" "out2 \<noteq> Blocked \<longrightarrow> semaphore g3 = semaphore ?g2"
            by simp_all
          from \<open>semaphore g = Some v\<close> False ae None lt rec "1.prems"
          have res: "(out, g') = (case out2 of Returned r \<Rightarrow> (Returned r, release g3)
                       | Blocked \<Rightarrow> (Blocked, g3) | Raised e \<Rightarrow> (Raised e, release g3))"
            by (simp add: call_llm_async.simps)
          show ?thesis
            using res ih f1 \<open>semaphore g = Some v\<close>
            by (cases out2) (auto simp: release_def sleep_def count_retry_def)
        next
          case ge: False
          with \<open>semaphore g = Some v\<close> False ae None "1.prems"
          have "g' = release (count_failed g1)" "out = Returned None"
            by (simp_all add: call_llm_async.simps)
          with f1 \<open>semaphore g = Some v\<close> show ?thesis
            by (simp add: release_def count_failed_def)
        qed
      qed
    qed
  qed
qed



text \<open>Once the semaphore exists the call raises nothing, at any depth of the retries.\<close>

lemma call_llm_async_never_raises:
  "semaphore g = Some v \<Longrightarrow> fst (call_llm_async cfg api rc g) \<noteq> Raised e"
proof (induction cfg api rc g arbitrary: v rule: call_llm_async.induct)
  case (1 cfg api rc g)
  show ?case
  proof (cases "v \<le> 0")
    case True
    with "1.prems" show ?thesis by (simp add: call_llm_async.simps)
  next
    case False
    obtain t g1 where ae: "attempt_effect (api rc) (g\<lparr>semaphore := Some (v - 1)\<rparr>) = (t, g1)"
      by (cases "attempt_effect (api rc) (g\<lparr>semaphore := Some (v - 1)\<rparr>)")
    note f1 = attempt_effect_fields [OF ae]
    show ?thesis
    proof (cases t)
      case (Some answer)
      with "1.prems" False ae show ?thesis by (simp add: call_llm_async.simps)
    next
      case None
      show ?thesis
      proof (cases "int rc < max_retries cfg")
        case lt: True
        let ?g2 = "sleep (retry_delay cfg * (real rc + 1)) (count_retry g1)"
        have "semaphore ?g2 = Some (v - 1)" using f1 by (simp add: sleep_def count_retry_def)
        from "1.IH" [OF "1.prems" False ae [symmetric] None lt this]
        have "fst (call_llm_async cfg api (Suc rc) ?g2) \<noteq> Raised e" .
        with "1.prems" False ae None lt show ?thesis
          by (cases "call_llm_async cfg api (Suc rc) ?g2")
             (auto simp: call_llm_async.simps split: outcome.splits)
      next
        case False
        with "1.prems" \<open>\<not> v \<le> 0\<close> ae None show ?thesis by (simp add: call_llm_async.simps)
      qed
    qed
  qed
qed

text \<open>
  Claim C3. A call whose every attempt fails should make \<^verbatim>\<open>max_retries + 1\<close> attempts, wait
  \<^verbatim>\<open>retry_delay * k\<close> before the \<open>k\<close>-th retry, and return \<^verbatim>\<open>None\<close>; the lemma above shows that
  the code does so while the semaphore has more than \<^verbatim>\<open>max_retries\<close> free slots. The retry,
  however, is a nested call made while the caller still holds its slot, and the semaphore
  is not re-entrant: with \<^verbatim>\<open>max_concurrent_requests = 1\<close> and the shipped \<^verbatim>\<open>max_retries = 3\<close>, a
  call whose first attempt times out makes that one attempt and then waits for ever for
  the slot it holds itself. It never returns.
\<close>

theorem C3_retry_deadlock:
  "fst (call_llm_async (shipped_config\<lparr>max_concurrent_requests := 1\<rparr>) (\<lambda>n. TimedOut) 0
          (one_patent_generator 1)) = Blocked
   \<and> total_requests (stats (snd (call_llm_async (shipped_config\<lparr>max_concurrent_requests := 1\<rparr>)
          (\<lambda>n. TimedOut) 0 (one_patent_generator 1)))) = 1"
  by (simp add: call_llm_async.simps shipped_config_def one_patent_generator_def attempt_effect_def
      count_total_def count_retry_def sleep_def Let_def)

text \<open>
  Claim C5. Every attempt counts once in \<^verbatim>\<open>total_requests\<close> (lemma \<open>attempt_effect_fields\<close>),
  and the elapsed time should be added for successful attempts only: the final report
  divides \<^verbatim>\<open>total_time\<close> by \<^verbatim>\<open>successful_requests\<close> and calls the quotient the mean response
  time. The code adds the elapsed time as soon as a response arrives, before it looks at
  the status. With the shipped configuration, a call that is answered four times with
  status 500 after two seconds each ends with no successful request and eight seconds of
  \<^verbatim>\<open>total_time\<close>.
\<close>

theorem C5_time_of_failed_attempt:
  "total_time (stats (snd (call_llm_async shipped_config (\<lambda>n. Answered 500 2 Undecodable) 0
          (one_patent_generator 5)))) = 8
   \<and> successful_requests (stats (snd (call_llm_async shipped_config (\<lambda>n. Answered 500 2 Undecodable) 0
          (one_patent_generator 5)))) = 0
   \<and> total_requests (stats (snd (call_llm_async shipped_config (\<lambda>n. Answered 500 2 Undecodable) 0
          (one_patent_generator 5)))) = 4"
  by (simp add: call_llm_async.simps shipped_config_def one_patent_generator_def attempt_effect_def
      count_total_def count_retry_def count_failed_def add_total_time_def sleep_def release_def Let_def)

section \<open>Files of a session and what a save leaves on disk\<close>





lemma save_json_fields [simp]:
  "output_dir (save_json flt k st) = output_dir st"
  "session_id (save_json flt k st) = session_id st"
  "green_data (save_json flt k st) = green_data st"
  "tech_data (save_json flt k st) = tech_data st"
  "location_data (save_json flt k st) = location_data st"
  "progress_data (save_json flt k st) = progress_data st"
  by (simp_all add: save_json_def)

lemma files_updates [simp]:
  "files (st\<lparr>green_data := a\<rparr>) k = files st k"
  "files (st\<lparr>tech_data := a\<rparr>) k = files st k"
  "files (st\<lparr>location_data := a\<rparr>) k = files st k"
  "files (st\<lparr>progress_data := p\<rparr>) k = files st k"
  "files (st\<lparr>disk := d\<rparr>) k = files st k"
  by (simp_all add: files_def)

lemma files_append_data [simp]: "files (append_data flt k items st) k' = files st k'"
  by (simp add: append_data_def)

lemma files_mark_processed_patents [simp]: "files (mark_processed_patents flt now ids st) k' = files st k'"
  by (simp add: mark_processed_patents_def)







section \<open>Orchestrator: one cycle of the patent loop\<close>

lemma append_data_result_kind:
  assumes "k \<noteq> progress"
  shows "progress_data (append_data flt k items st) = progress_data st"
    and "output_dir (append_data flt k items st) = output_dir st"
    and "session_id (append_data flt k items st) = session_id st"
  using assms by (cases k; simp add: append_data_def append_in_memory_def save_json_def)+

lemma save_results_ledger:
  "progress_data (save_results ts rs st) = progress_data st
   \<and> output_dir (save_results ts rs st) = output_dir st
   \<and> session_id (save_results ts rs st) = session_id st"
  by (induction ts rs st rule: save_results.induct)
     (auto simp: append_data_result_kind split: outcome.splits option.splits)


lemma mark_processed_patents_ledger:
  "processed_patents (progress_data (mark_processed_patents flt now ids st))
     = processed_patents (progress_data st) @ map JString ids"
  "processed_entities (progress_data (mark_processed_patents flt now ids st))
     = processed_entities (progress_data st)"
  "green_data (mark_processed_patents flt now ids st) = green_data st"
  "tech_data (mark_processed_patents flt now ids st) = tech_data st"
  "location_data (mark_processed_patents flt now ids st) = location_data st"
  by (simp_all add: mark_processed_patents_def save_json_def)

lemma process_batch_async_fields:
  assumes "process_batch_async cfg api items task_type g = (out, g')"
  shows "storage g' = storage g" "should_stop g' = should_stop g" "all_patents g' = all_patents g"
    "all_entities g' = all_entities g" "clock g' = clock g"
    "out \<noteq> Blocked \<longrightarrow> semaphore g' = semaphore g"
proof -
  obtain o1 g1 where c: "call_llm_async cfg (api task_type items) 0 g = (o1, g1)"
    by (cases "call_llm_async cfg (api task_type items) 0 g")
  from assms c have "g' = g \<or> (g' = g1 \<and> (out = Blocked \<longleftrightarrow> o1 = Blocked))"
    by (auto simp: process_batch_async_def split: if_splits outcome.splits option.splits)
  with call_llm_async_fields [OF c]
  show "storage g' = storage g" "should_stop g' = should_stop g" "all_patents g' = all_patents g"
    "all_entities g' = all_entities g" "clock g' = clock g"
    "out \<noteq> Blocked \<longrightarrow> semaphore g' = semaphore g"
    by auto
qed

lemma gather_fields:
  "gather cfg api ts g = (out, g') \<Longrightarrow>
     storage g' = storage g \<and> should_stop g' = should_stop g \<and> all_patents g' = all_patents g
     \<and> all_entities g' = all_entities g \<and> clock g' = clock g
     \<and> (\<forall>rs. out = Returned rs \<longrightarrow> length rs = length ts \<and> semaphore g' = semaphore g)"
proof (induction ts arbitrary: g out g')
  case Nil
  then show ?case by auto
next
  case (Cons t ts)
  obtain o1 g1 where p: "process_batch_async cfg api (snd (snd t)) (fst t) g = (o1, g1)"
    by (cases "process_batch_async cfg api (snd (snd t)) (fst t) g")
  note f1 = process_batch_async_fields [OF p]
  show ?case
  proof (cases "o1 = Blocked")
    case True
    with p Cons.prems have "g' = g1" "out = Blocked" by simp_all
    with f1 show ?thesis by simp
  next
    case False
    obtain o2 g2 where r: "gather cfg api ts g1 = (o2, g2)"
      by (cases "gather cfg api ts g1")
    from Cons.IH [OF r] have ih: "storage g2 = storage g1" "should_stop g2 = should_stop g1"
      "all_patents g2 = all_patents g1" "all_entities g2 = all_entities g1" "clock g2 = clock g1"
      "\<forall>rs. o2 = Returned rs \<longrightarrow> length rs = length ts \<and> semaphore g2 = semaphore g1"
      by simp_all
    from False p r Cons.prems
    have res: "(out, g') = (case o2 of Returned rs \<Rightarrow> (Returned (o1 # rs), g2) | other \<Rightarrow> (other, g2))"
      by (cases o1) (auto split: outcome.splits)
    then have g': "g' = g2" by (cases o2) simp_all
    from res have "\<forall>rs. out = Returned rs \<longrightarrow> (\<exists>rs'. o2 = Returned rs' \<and> rs = o1 # rs')"
      by (cases o2) auto
    with ih f1 g' False show ?thesis by auto
  qed
qed


lemma concat_batches: "0 < n \<Longrightarrow> concat (batches n xs) = xs"
proof (induction n xs rule: batches.induct)
  case (1 n xs)
  show ?case
  proof (cases "xs = []")
    case True
    then show ?thesis by (simp add: batches.simps)
  next
    case False
    with 1 have "concat (batches n (drop n xs)) = drop n xs" by simp
    with False "1.prems" show ?thesis by (subst batches.simps) simp
  qed
qed

lemma make_tasks_ids:
  assumes "enable_green_classification cfg \<or> enable_tech_classification cfg"
  shows "set (concat (map (\<lambda>t. fst (snd t)) (make_tasks cfg bs))) = patentId ` set (concat bs)"
  using assms by (induction bs) (auto simp: make_tasks_def)

lemma make_tasks_disabled:
  "\<not> enable_green_classification cfg \<Longrightarrow> \<not> enable_tech_classification cfg \<Longrightarrow> make_tasks cfg bs = []"
  by (induction bs) (auto simp: make_tasks_def)

lemma unprocessed_patents_loop_set:
  "set (unprocessed_patents_loop st limit acc ps)
     \<subseteq> set acc \<union> {p \<in> set ps. \<not> is_patent_processed st (patentId p)}"
  by (induction st limit acc ps rule: unprocessed_patents_loop.induct) auto

lemma get_unprocessed_patents_fresh:
  "p \<in> set (get_unprocessed_patents g limit) \<Longrightarrow>
     p \<in> set (all_patents g) \<and> JString (patentId p) \<notin> set (processed_patents (progress_data (storage g)))"
  using unprocessed_patents_loop_set [of "storage g" limit "[]" "all_patents g"]
  by (auto simp: get_unprocessed_patents_def is_patent_processed_def)

lemma count_list_distinct:
  "distinct xs \<Longrightarrow> count_list xs x = (if x \<in> set xs then 1 else 0)"
  by (induction xs) auto

lemma patents_cycle_returned:
  assumes "patents_cycle cfg api now patents g = Returned g'"
  shows "\<exists>bs results g1.
           split_batches (batch_size cfg) patents = Inr bs
         \<and> gather cfg api (make_tasks cfg bs) g = (Returned results, g1)
         \<and> g' = sleep (1 / 10)
                  (g1\<lparr>storage := mark_processed_patents NoFault (now (clock g1))
                          (py_list_set (concat (map (\<lambda>t. fst (snd t)) (make_tasks cfg bs))))
                          (save_results (make_tasks cfg bs) results (storage g1)),
                      clock := Suc (clock g1)\<rparr>)"
  using assms
  by (auto simp: patents_cycle_def Let_def split: sum.splits prod.splits outcome.splits)

lemma patents_cycle_ledger:
  assumes "patents_cycle cfg api now patents g = Returned g'"
    and "enable_green_classification cfg \<or> enable_tech_classification cfg"
    and "0 < batch_size cfg"
  shows "\<exists>ids. processed_patents (progress_data (storage g'))
                 = processed_patents (progress_data (storage g)) @ map JString ids
           \<and> distinct ids \<and> set ids = patentId ` set patents"
proof -
  from patents_cycle_returned [OF assms(1)] obtain bs results g1 where
    sb: "split_batches (batch_size cfg) patents = Inr bs"
    and ga: "gather cfg api (make_tasks cfg bs) g = (Returned results, g1)"
    and g': "g' = sleep (1 / 10)
                  (g1\<lparr>storage := mark_processed_patents NoFault (now (clock g1))
                          (py_list_set (concat (map (\<lambda>t. fst (snd t)) (make_tasks cfg bs))))
                          (save_results (make_tasks cfg bs) results (storage g1)),
                      clock := Suc (clock g1)\<rparr>)"
    by blast
  let ?ids = "py_list_set (concat (map (\<lambda>t. fst (snd t)) (make_tasks cfg bs)))"
  from sb assms(3) have "bs = batches (nat (batch_size cfg)) patents"
    by (simp add: split_batches_def)
  with assms(3) have "concat bs = patents" by (simp add: concat_batches)
  with make_tasks_ids [OF assms(2), of bs] have "set ?ids = patentId ` set patents"
    by (simp add: py_list_set_def)
  moreover have "distinct ?ids" by (simp add: py_list_set_def)
  moreover from gather_fields [OF ga] have "storage g1 = storage g" by simp
  with g' have "processed_patents (progress_data (storage g'))
                 = processed_patents (progress_data (storage g)) @ map JString ?ids"
    by (simp add: sleep_def mark_processed_patents_ledger save_results_ledger)
  ultimately show ?thesis by blast
qed

lemma patents_cycle_marks_once:
  assumes "patents_cycle cfg api now (get_unprocessed_patents g limit) g = Returned g'"
    and "enable_green_classification cfg \<or> enable_tech_classification cfg"
    and "0 < batch_size cfg"
    and "p \<in> set (get_unprocessed_patents g limit)"
  shows "count_list (processed_patents (progress_data (storage g'))) (JString (patentId p)) = 1"
proof -
  from patents_cycle_ledger [OF assms(1-3)] obtain ids where
    l: "processed_patents (progress_data (storage g'))
          = processed_patents (progress_data (storage g)) @ map JString ids"
    and d: "distinct ids" and s: "set ids = patentId ` set (get_unprocessed_patents g limit)"
    by blast
  from get_unprocessed_patents_fresh [OF assms(4)]
  have "count_list (processed_patents (progress_data (storage g))) (JString (patentId p)) = 0"
    by (simp add: count_list_0_iff)
  moreover from d have "distinct (map JString ids)" by (simp add: distinct_map inj_on_def)
  then have "count_list (map JString ids) (JString (patentId p)) = 1"
    using s assms(4) by (auto simp: count_list_distinct)
  ultimately show ?thesis using l by simp
qed





lemma same_ledger_same_fetch:
  assumes "processed_patents (progress_data st') = processed_patents (progress_data st)"
  shows "unprocessed_patents_loop st' limit acc ps = unprocessed_patents_loop st limit acc ps"
  using assms
  by (induction st limit acc ps rule: unprocessed_patents_loop.induct)
     (simp_all add: is_patent_processed_def)

lemma disabled_cycle:
  assumes off: "\<not> enable_green_classification cfg" "\<not> enable_tech_classification cfg"
    and bs: "0 < batch_size cfg"
  shows "patents_cycle cfg api now patents g =
           Returned (sleep (1 / 10) (g\<lparr>storage := mark_processed_patents NoFault (now (clock g)) [] (storage g),
                              clock := Suc (clock g)\<rparr>))"
proof -
  from bs have "split_batches (batch_size cfg) patents = Inr (batches (nat (batch_size cfg)) patents)"
    by (simp add: split_batches_def)
  moreover have "make_tasks cfg (batches (nat (batch_size cfg)) patents) = []"
    using off by (rule make_tasks_disabled)
  ultimately show ?thesis
    by (simp add: patents_cycle_def py_list_set_def)
qed

lemma disabled_cycle_fetch:
  "get_unprocessed_patents
     (sleep s (g\<lparr>storage := mark_processed_patents NoFault t [] (storage g), clock := c\<rparr>)) limit
   = get_unprocessed_patents g limit"
proof -
  have "processed_patents (progress_data (mark_processed_patents NoFault t [] (storage g)))
          = processed_patents (progress_data (storage g))"
    by (simp add: mark_processed_patents_ledger)
  then have "unprocessed_patents_loop (mark_processed_patents NoFault t [] (storage g)) limit [] (all_patents g)
               = unprocessed_patents_loop (storage g) limit [] (all_patents g)"
    by (rule same_ledger_same_fetch)
  then show ?thesis
    by (simp add: get_unprocessed_patents_def sleep_def)
qed


lemma process_patents_async_never_ends:
  assumes off: "\<not> enable_green_classification cfg" "\<not> enable_tech_classification cfg"
    and bs: "0 < batch_size cfg"
    and quiet: "\<forall>k. \<not> signal k"
  shows "\<not> should_stop g \<Longrightarrow>
         get_unprocessed_patents g (batch_size cfg * max_concurrent_requests cfg) \<noteq> [] \<Longrightarrow>
         process_patents_async fuel cfg api now signal k g = None"
proof (induction fuel arbitrary: g k)
  case 0
  then show ?case by simp
next
  case (Suc fuel)
  let ?L = "batch_size cfg * max_concurrent_requests cfg"
  let ?g' = "sleep (1 / 10) (g\<lparr>storage := mark_processed_patents NoFault (now (clock g)) [] (storage g),
                              clock := Suc (clock g)\<rparr>)"
  have cyc: "patents_cycle cfg api now (get_unprocessed_patents g ?L) g = Returned ?g'"
    using off bs by (rule disabled_cycle)
  have "get_unprocessed_patents ?g' ?L = get_unprocessed_patents g ?L"
    by (rule disabled_cycle_fetch)
  with Suc.prems(2) have ne: "get_unprocessed_patents ?g' ?L \<noteq> []" by simp
  have ns: "\<not> should_stop ?g'" using Suc.prems(1) by (simp add: sleep_def)
  have rec: "process_patents_async fuel cfg api now signal (Suc k) ?g' = None"
    using ns ne by (rule Suc.IH)
  have "process_patents_async (Suc fuel) cfg api now signal k g
          = process_patents_async fuel cfg api now signal (Suc k) ?g'"
    using Suc.prems cyc quiet by (simp add: Let_def)
  with rec show ?case by simp
qed

lemma one_patent_fetch:
  "get_unprocessed_patents (one_patent_generator 5) 50 = all_patents (one_patent_generator 5)"
  by (simp add: get_unprocessed_patents_def one_patent_generator_def is_patent_processed_def
      default_ledger_def)

text \<open>
  Claim C2. After a fetch cycle every fetched key should be in the ledger exactly once,
  whatever became of the tasks; lemma \<open>patents_cycle_marks_once\<close> proves it when at least one
  of the two task types is enabled and the batch size is positive. The keys that are
  marked are collected from the task list, though, not from the fetched patents: with
  both task types switched off (a run that is only to extract locations) the task list
  is empty, nothing is marked, the next fetch returns the same patents, and the loop
  never ends. The sibling loop over the entities returns at once when its task type is
  off and marks the names of the batch itself.
\<close>

theorem C2_unmarked_when_no_task_type:
  "(case patents_cycle (shipped_config\<lparr>enable_tech_classification := False, enable_green_classification := False\<rparr>)
           (\<lambda>task items n. TimedOut) (\<lambda>n. ''2026-01-01T00:00:00'')
           (get_unprocessed_patents (one_patent_generator 5) 50) (one_patent_generator 5) of
      Returned g' \<Rightarrow>
        map patentId (get_unprocessed_patents (one_patent_generator 5) 50) = [''CN1'']
        \<and> processed_patents (progress_data (storage g')) = []
        \<and> map patentId (get_unprocessed_patents g' 50) = [''CN1'']
    | Blocked \<Rightarrow> False
    | Raised e \<Rightarrow> False)
   \<and> (\<forall>fuel. process_patents_async fuel
          (shipped_config\<lparr>enable_tech_classification := False, enable_green_classification := False\<rparr>)
          (\<lambda>task items n. TimedOut) (\<lambda>n. ''2026-01-01T00:00:00'') (\<lambda>k. False) 0
          (one_patent_generator 5) = None)"
proof (intro conjI allI)
  let ?cfg = "shipped_config\<lparr>enable_tech_classification := False, enable_green_classification := False\<rparr>"
  have off: "\<not> enable_green_classification ?cfg" "\<not> enable_tech_classification ?cfg"
    and bs: "0 < batch_size ?cfg"
    and lim: "batch_size ?cfg * max_concurrent_requests ?cfg = 50"
    by (simp_all add: shipped_config_def)
  show "(case patents_cycle ?cfg (\<lambda>task items n. TimedOut) (\<lambda>n. ''2026-01-01T00:00:00'')
           (get_unprocessed_patents (one_patent_generator 5) 50) (one_patent_generator 5) of
      Returned g' \<Rightarrow>
        map patentId (get_unprocessed_patents (one_patent_generator 5) 50) = [''CN1'']
        \<and> processed_patents (progress_data (storage g')) = []
        \<and> map patentId (get_unprocessed_patents g' 50) = [''CN1'']
    | Blocked \<Rightarrow> False
    | Raised e \<Rightarrow> False)"
    unfolding disabled_cycle [OF off bs] outcome.case disabled_cycle_fetch one_patent_fetch
    by (simp add: sleep_def mark_processed_patents_ledger one_patent_generator_def default_ledger_def)
  fix fuel
  have "get_unprocessed_patents (one_patent_generator 5) (batch_size ?cfg * max_concurrent_requests ?cfg) \<noteq> []"
    unfolding lim one_patent_fetch by (simp add: one_patent_generator_def)
  moreover have "\<not> should_stop (one_patent_generator 5)" by (simp add: one_patent_generator_def)
  moreover have "\<forall>k. \<not> (\<lambda>k. False) k" by simp
  ultimately show "process_patents_async fuel ?cfg (\<lambda>task items n. TimedOut)
      (\<lambda>n. ''2026-01-01T00:00:00'') (\<lambda>k. False) 0 (one_patent_generator 5) = None"
    by (intro process_patents_async_never_ends [OF off bs])
qed





section \<open>Work catalog: one item per normalised name\<close>








section \<open>Resuming a finished session\<close>

lemma all_processed_patents:
  "\<forall>p \<in> set ps. is_patent_processed st (patentId p) \<Longrightarrow> unprocessed_patents_loop st limit acc ps = acc"
  by (induction st limit acc ps rule: unprocessed_patents_loop.induct) auto

lemma all_processed_entities:
  "\<forall>e \<in> set es. is_entity_processed st (normalizedName e) \<Longrightarrow> unprocessed_entities_loop st limit acc es = acc"
  by (induction st limit acc es rule: unprocessed_entities_loop.induct) auto

lemma JSONStorage_init_ledger:
  assumes "JSONStorage_init dir sid d = Some st"
    and "d (path_join dir (sid @ ''_progress.json'')) = Some (Doc (Ledger l))"
  shows "progress_data st = l" "disk st = d"
  using assms
  by (auto simp: JSONStorage_init_def Let_def load_json_def files_def
      split: prod.splits document.splits list.splits)

lemma nothing_to_do:
  assumes "\<not> should_stop g"
    and "\<forall>p \<in> set (all_patents g). is_patent_processed (storage g) (patentId p)"
    and "\<forall>e \<in> set (all_entities g). is_entity_processed (storage g) (normalizedName e)"
    and "0 \<le> max_concurrent_requests cfg"
  shows "generate_all_async (Suc fuel) cfg api_p api_e now sig_p sig_e g
           = Some (Returned (g\<lparr>semaphore := Some (max_concurrent_requests cfg)\<rparr>))"
proof -
  let ?g = "g\<lparr>semaphore := Some (max_concurrent_requests cfg)\<rparr>"
  have p: "get_unprocessed_patents ?g (batch_size cfg * max_concurrent_requests cfg) = []"
    using assms(2) by (simp add: get_unprocessed_patents_def all_processed_patents)
  have e: "get_unprocessed_entities ?g (10 * 10) = []"
    using assms(3) by (simp add: get_unprocessed_entities_def all_processed_entities)
  have "process_patents_async (Suc fuel) cfg api_p now sig_p 0 ?g = Some (Returned ?g)"
    using assms(1) p by simp
  moreover have "process_entities_async (Suc fuel) cfg api_e now sig_e ?g = Some (Returned ?g)"
    using assms(1) e by (simp add: process_entities_async_def)
  ultimately show ?thesis using assms(4) by (simp add: generate_all_async_def)
qed

text \<open>
  Claim C8. A process started on a session whose progress file holds the keys of all
  patents and the normalised names of all entities makes no request when the orchestrator
  runs: both loops find nothing to fetch, the run returns, the request counter stays 0,
  and the store (hence every record count) and the disk are as they were loaded.
\<close>

theorem C8_idempotent_resumption:
  assumes "AsyncLLMGenerator_init dir (Some sid) fresh nz patents d = Some g"
    and "sid \<noteq> []"
    and "d (path_join dir (sid @ ''_progress.json'')) = Some (Doc (Ledger l))"
    and "\<forall>p \<in> set patents. JString (patentId p) \<in> set (processed_patents l)"
    and "\<forall>e \<in> set (extract_entities_from_patents nz patents).
           JString (normalizedName e) \<in> set (processed_entities l)"
    and "0 \<le> max_concurrent_requests cfg"
  shows "\<exists>g'. generate_all_async (Suc fuel) cfg api_p api_e now sig_p sig_e g = Some (Returned g')
           \<and> total_requests (stats g') = 0
           \<and> get_stats (storage g') = get_stats (storage g)
           \<and> storage g' = storage g
           \<and> disk (storage g') = d"
proof -
  from assms(1,2) obtain st where st: "JSONStorage_init dir sid d = Some st"
    and g: "g = \<lparr>storage = st, semaphore = None, should_stop = False,
                   stats = \<lparr>total_requests = 0, successful_requests = 0, failed_requests = 0,
                            retries = 0, total_time = 0\<rparr>,
                   all_patents = patents,
                   all_entities = extract_entities_from_patents nz patents,
                   slept = [], clock = 0\<rparr>"
    by (auto simp: AsyncLLMGenerator_init_def Let_def split: option.splits)
  note l = JSONStorage_init_ledger [OF st assms(3)]
  have "generate_all_async (Suc fuel) cfg api_p api_e now sig_p sig_e g
          = Some (Returned (g\<lparr>semaphore := Some (max_concurrent_requests cfg)\<rparr>))"
    using assms(4,5,6) l
    by (intro nothing_to_do) (simp_all add: g is_patent_processed_def is_entity_processed_def)
  then show ?thesis using l by (simp add: g)
qed

theorem C8_idempotent_resumption_witness:
  "\<exists>g g'. AsyncLLMGenerator_init ''out'' (Some ''s1'') ''20260101_000000'' (\<lambda>s. Some (take 4 s))
              acme_patents resumed_disk = Some g
       \<and> generate_all_async (Suc 0) shipped_config (\<lambda>task items n. TimedOut) (\<lambda>task items n. TimedOut)
            (\<lambda>n. ''2026-01-02T00:00:00'') (\<lambda>k. False) (\<lambda>k. False) g = Some (Returned g')
       \<and> total_requests (stats g') = 0
       \<and> get_stats (storage g') = (1, 1, 1, 0, 0)
       \<and> disk (storage g') = resumed_disk"
proof -
  let ?l = "\<lparr>processed_patents = [JString ''CN1''], processed_entities = [JString ''Acme''],
                     ledger_session_id = ''s1'', last_update = Some ''2026-01-01T00:00:00''\<rparr>"
  have e: "extract_entities_from_patents (\<lambda>s. Some (take 4 s)) acme_patents
     = [\<lparr>normalizedName = ''Acme'', name = ''Acme Corp'', entity_type = entity_kind ''Acme Corp''\<rparr>]"
    by (simp add: extract_entities_from_patents_def acme_patents_def add_entity_def)
  obtain g where g: "AsyncLLMGenerator_init ''out'' (Some ''s1'') ''20260101_000000'' (\<lambda>s. Some (take 4 s))
              acme_patents resumed_disk = Some g"
    and s: "get_stats (storage g) = (1, 1, 1, 0, 0)"
    by (simp add: AsyncLLMGenerator_init_def JSONStorage_init_def load_json_def files_def path_join_def
        resumed_disk_def get_stats_def Let_def)
  have f: "resumed_disk (path_join ''out'' (''s1'' @ ''_progress.json'')) = Some (Doc (Ledger ?l))"
    by (simp add: resumed_disk_def path_join_def)
  have p: "\<forall>p \<in> set acme_patents. JString (patentId p) \<in> set (processed_patents ?l)"
    by (simp add: acme_patents_def)
  have n: "\<forall>e \<in> set (extract_entities_from_patents (\<lambda>s. Some (take 4 s)) acme_patents).
           JString (normalizedName e) \<in> set (processed_entities ?l)"
    by (simp add: e)
  have m: "0 \<le> max_concurrent_requests shipped_config" by (simp add: shipped_config_def)
  have ne: "''s1'' \<noteq> []" by simp
  from C8_idempotent_resumption [OF g ne f p n m, of 0 "\<lambda>task items n. TimedOut" "\<lambda>task items n. TimedOut"
      "\<lambda>n. ''2026-01-02T00:00:00''" "\<lambda>k. False" "\<lambda>k. False"] g s
  show ?thesis by auto
qed

section \<open>A 200 response that yields no records\<close>










end
